theory Spec2Isabelle
  imports Complex_Main "HOL-Library.Char_ord" "HOL-Library.List_Lexorder" "HOL-Library.AList"
    "HOL-Library.Log_Nat"
begin

section \<open>Python values, as \<^verbatim>\<open>json.load\<close> produces them\<close>

text \<open>
  \<^verbatim>\<open>simple_data_tool.py\<close> keeps four lists of dictionaries read from JSON files and
  answers queries by scanning them. The records of the data sets are flat: a field holds
  \<^verbatim>\<open>None\<close>, a bool, an int, a float or a string. Python's unbounded ints are \<open>int\<close>;
  a float is an IEEE 754 binary64 value.

  Every operation that can raise in Python returns \<open>py_error + 'a\<close> here, \<open>Inl\<close> the
  exception. The class has no \<^verbatim>\<open>try\<close> block, so an exception raised inside a method
  leaves the method.
\<close>

datatype py_error =
  KeyError | TypeError | ValueError | IndexError | ZeroDivisionError | OverflowError

subsection \<open>Floats\<close>

text \<open>
  \<open>Fin r\<close> is the finite double of value \<open>r\<close> (\<open>Fin 0\<close> the positive zero),
  \<open>NegZero\<close> is \<^verbatim>\<open>-0.0\<close>. The decoder reads \<^verbatim>\<open>1e999\<close> and \<^verbatim>\<open>Infinity\<close> as
  \<open>PosInf\<close> and accepts \<^verbatim>\<open>NaN\<close>, so the data can hold every kind of float.
\<close>

datatype dbl = Fin rat | NegZero | PosInf | NegInf | NaN

definition pow2 :: "int \<Rightarrow> rat" where
  "pow2 e = 2 powi e"

text \<open>The integer nearest to \<open>x\<close>, a tie going to the even neighbour.\<close>

definition round_half_even :: "rat \<Rightarrow> int" where
  "round_half_even x =
     (let f = \<lfloor>x\<rfloor>; d = x - of_int f
      in if d < 1 / 2 then f else if 1 / 2 < d then f + 1 else if even f then f else f + 1)"

text \<open>The exponent \<open>e\<close> with \<open>2 ^ e \<le> a < 2 ^ (e + 1)\<close>, for \<open>a > 0\<close>.\<close>

definition binary_exponent :: "rat \<Rightarrow> int" where
  "binary_exponent a = (if 1 \<le> a then bitlen \<lfloor>a\<rfloor> - 1 else - bitlen (\<lceil>1 / a\<rceil> - 1))"

text \<open>
  Rounding to nearest, ties to even, the one rounding mode CPython computes in. A double
  has 53 significant bits and an exponent from -1022 to 1023: \<open>r\<close> is rounded to a
  multiple of \<open>2 ^ (e - 52)\<close>, \<open>e\<close> its binary exponent (at least -1022, below which
  the doubles are evenly spaced). A result of magnitude \<open>2 ^ 1024\<close> is an infinity.
  \<open>neg\<close> is the sign of the zero that an exact zero \<open>r\<close> gives; a nonzero \<open>r\<close> that
  rounds to zero keeps its sign.
\<close>

definition round_double :: "bool \<Rightarrow> rat \<Rightarrow> dbl" where
  "round_double neg r =
     (if r = 0 then (if neg then NegZero else Fin 0)
      else let q = pow2 (max (binary_exponent \<bar>r\<bar>) (- 1022) - 52);
               m = round_half_even (\<bar>r\<bar> / q);
               a = of_int m * q
           in if pow2 1024 \<le> a then (if r < 0 then NegInf else PosInf)
              else if m = 0 then (if r < 0 then NegZero else Fin 0)
              else Fin (if r < 0 then - a else a))"

text \<open>The float that a decimal literal denotes, in a JSON file as in Python source.\<close>

definition json_float :: "rat \<Rightarrow> dbl" where
  "json_float r = round_double False r"

fun is_finite :: "dbl \<Rightarrow> bool" where
  "is_finite (Fin r) = True"
| "is_finite NegZero = True"
| "is_finite PosInf = False"
| "is_finite NegInf = False"
| "is_finite NaN = False"

fun dbl_val :: "dbl \<Rightarrow> rat" where
  "dbl_val (Fin r) = r"
| "dbl_val NegZero = 0"
| "dbl_val PosInf = 0"
| "dbl_val NegInf = 0"
| "dbl_val NaN = 0"

fun sign_bit :: "dbl \<Rightarrow> bool" where
  "sign_bit (Fin r) = (r < 0)"
| "sign_bit NegZero = True"
| "sign_bit PosInf = False"
| "sign_bit NegInf = True"
| "sign_bit NaN = False"

text \<open>
  Float addition: the exact sum, rounded. A sum that is exactly zero is \<^verbatim>\<open>-0.0\<close> only
  when both operands are; infinities of opposite sign give NaN. No float addition raises.
\<close>

definition fadd :: "dbl \<Rightarrow> dbl \<Rightarrow> dbl" where
  "fadd x y =
     (if x = NaN \<or> y = NaN then NaN
      else if x = PosInf then (if y = NegInf then NaN else PosInf)
      else if x = NegInf then (if y = PosInf then NaN else NegInf)
      else if y = PosInf \<or> y = NegInf then y
      else round_double (x = NegZero \<and> y = NegZero) (dbl_val x + dbl_val y))"

text \<open>Float division by a divisor that is not zero (Python raises on a zero divisor).\<close>

definition fdiv :: "dbl \<Rightarrow> dbl \<Rightarrow> dbl" where
  "fdiv x y =
     (if x = NaN \<or> y = NaN then NaN
      else if \<not> is_finite x
        then (if \<not> is_finite y then NaN
              else if sign_bit x \<noteq> sign_bit y then NegInf else PosInf)
      else if \<not> is_finite y then (if sign_bit x \<noteq> sign_bit y then NegZero else Fin 0)
      else round_double (sign_bit x \<noteq> sign_bit y) (dbl_val x / dbl_val y))"

text \<open>
  \<^verbatim>\<open>round(x, 2)\<close> of a float: infinities and NaN come back as they are; a finite \<open>x\<close>
  is rounded, in its exact value, to the nearest multiple of 0.01 (a tie to the even
  one), and the result is the double nearest to that decimal.
\<close>

definition fround2 :: "dbl \<Rightarrow> dbl" where
  "fround2 x =
     (case x of
        Fin r \<Rightarrow> round_double (r < 0) (of_int (round_half_even (r * 100)) / 100)
      | _ \<Rightarrow> x)"

text \<open>
  An int that meets a float is converted first: to the nearest double, or
  \<^verbatim>\<open>OverflowError\<close> when that is out of range.
\<close>

definition float_of_int :: "int \<Rightarrow> py_error + dbl" where
  "float_of_int i =
     (let d = round_double False (of_int i)
      in if is_finite d then Inr d else Inl OverflowError)"

subsection \<open>Values and objects\<close>

datatype pyval = PNone | PBool bool | PInt int | PFloat dbl | PStr string

text \<open>
  One method compares with \<^verbatim>\<open>is\<close>, so a field holds an object: a value with the
  identity of its allocation. CPython keeps one object for \<^verbatim>\<open>None\<close>, for each bool
  and for each int from -5 to 256; any other value is allocated where it is created (by
  the JSON decoder, or by the caller for an argument).
\<close>

datatype pyobj = Obj (obj_id: nat) (obj_val: pyval)

type_synonym jrecord = "string \<rightharpoonup> pyobj"

fun interned :: "pyval \<Rightarrow> bool" where
  "interned PNone = True"
| "interned (PBool b) = True"
| "interned (PInt i) = (- 5 \<le> i \<and> i \<le> 256)"
| "interned (PFloat x) = False"
| "interned (PStr s) = False"

definition py_is :: "pyobj \<Rightarrow> pyobj \<Rightarrow> bool" where
  "py_is a b =
     (if interned (obj_val a) \<and> interned (obj_val b) then obj_val a = obj_val b
      else obj_id a = obj_id b)"

text \<open>
  The numeric tower: bool is a subtype of int, and ints and floats compare by their exact
  values, \<^verbatim>\<open>-0.0\<close> being zero. NaN is unordered and equal to nothing, itself included.
\<close>

fun py_int :: "pyval \<Rightarrow> int option" where
  "py_int (PBool b) = Some (if b then 1 else 0)"
| "py_int (PInt i) = Some i"
| "py_int PNone = None"
| "py_int (PFloat x) = None"
| "py_int (PStr s) = None"

datatype num = Finite rat | PlusInf | MinusInf | NotANumber

fun num_of_dbl :: "dbl \<Rightarrow> num" where
  "num_of_dbl (Fin r) = Finite r"
| "num_of_dbl NegZero = Finite 0"
| "num_of_dbl PosInf = PlusInf"
| "num_of_dbl NegInf = MinusInf"
| "num_of_dbl NaN = NotANumber"

fun py_num :: "pyval \<Rightarrow> num option" where
  "py_num (PBool b) = Some (Finite (if b then 1 else 0))"
| "py_num (PInt i) = Some (Finite (of_int i))"
| "py_num (PFloat x) = Some (num_of_dbl x)"
| "py_num PNone = None"
| "py_num (PStr s) = None"

fun num_lt :: "num \<Rightarrow> num \<Rightarrow> bool" where
  "num_lt (Finite x) (Finite y) = (x < y)"
| "num_lt (Finite x) PlusInf = True"
| "num_lt MinusInf (Finite y) = True"
| "num_lt MinusInf PlusInf = True"
| "num_lt x y = False"

definition num_eq :: "num \<Rightarrow> num \<Rightarrow> bool" where
  "num_eq x y = (x \<noteq> NotANumber \<and> x = y)"

definition num_le :: "num \<Rightarrow> num \<Rightarrow> bool" where
  "num_le x y = (num_lt x y \<or> num_eq x y)"

text \<open>\<^verbatim>\<open>a == b\<close>: never raises; values of unrelated types are unequal.\<close>

definition py_eq :: "pyval \<Rightarrow> pyval \<Rightarrow> bool" where
  "py_eq a b =
     (case py_num a of
        Some x \<Rightarrow> (case py_num b of Some y \<Rightarrow> num_eq x y | None \<Rightarrow> False)
      | None \<Rightarrow> (case py_num b of Some y \<Rightarrow> False | None \<Rightarrow> a = b))"

text \<open>
  \<^verbatim>\<open>a < b\<close> and \<^verbatim>\<open>a >= b\<close>: numbers with numbers, strings with strings (by code
  point, lexicographically); anything else raises \<^verbatim>\<open>TypeError\<close>.
\<close>

definition py_lt :: "pyval \<Rightarrow> pyval \<Rightarrow> py_error + bool" where
  "py_lt a b =
     (case py_num a of
        Some x \<Rightarrow> (case py_num b of Some y \<Rightarrow> Inr (num_lt x y) | None \<Rightarrow> Inl TypeError)
      | None \<Rightarrow>
          (case a of
             PStr s \<Rightarrow> (case b of PStr t \<Rightarrow> Inr (s < t) | _ \<Rightarrow> Inl TypeError)
           | _ \<Rightarrow> Inl TypeError))"

definition py_gt :: "pyval \<Rightarrow> pyval \<Rightarrow> py_error + bool" where
  "py_gt a b = py_lt b a"

definition py_ge :: "pyval \<Rightarrow> pyval \<Rightarrow> py_error + bool" where
  "py_ge a b =
     (case py_num a of
        Some x \<Rightarrow> (case py_num b of Some y \<Rightarrow> Inr (num_le y x) | None \<Rightarrow> Inl TypeError)
      | None \<Rightarrow>
          (case a of
             PStr s \<Rightarrow> (case b of PStr t \<Rightarrow> Inr (t \<le> s) | _ \<Rightarrow> Inl TypeError)
           | _ \<Rightarrow> Inl TypeError))"

text \<open>
  The float an operand of float arithmetic stands for: a float itself, an int or bool
  converted; \<^verbatim>\<open>None\<close> and strings are no numbers.
\<close>

definition py_float :: "pyval \<Rightarrow> py_error + dbl" where
  "py_float v =
     (case v of
        PFloat x \<Rightarrow> Inr x
      | PInt i \<Rightarrow> float_of_int i
      | PBool b \<Rightarrow> float_of_int (if b then 1 else 0)
      | _ \<Rightarrow> Inl TypeError)"

text \<open>
  \<^verbatim>\<open>a + b\<close>: int with int is an int, a float on either side makes a float, two strings
  are concatenated, and \<^verbatim>\<open>None\<close> or a string with a number raises \<^verbatim>\<open>TypeError\<close>.
\<close>

definition py_add :: "pyval \<Rightarrow> pyval \<Rightarrow> py_error + pyval" where
  "py_add a b =
     (case py_num a of
        Some x \<Rightarrow>
          (case py_num b of
             Some y \<Rightarrow>
               (case py_int a of
                  Some i \<Rightarrow>
                    (case py_int b of
                       Some j \<Rightarrow> Inr (PInt (i + j))
                     | None \<Rightarrow>
                         (case py_float a of
                            Inl e \<Rightarrow> Inl e
                          | Inr u \<Rightarrow>
                              (case py_float b of
                                 Inl e \<Rightarrow> Inl e
                               | Inr w \<Rightarrow> Inr (PFloat (fadd u w)))))
                | None \<Rightarrow>
                    (case py_float a of
                       Inl e \<Rightarrow> Inl e
                     | Inr u \<Rightarrow>
                         (case py_float b of
                            Inl e \<Rightarrow> Inl e
                          | Inr w \<Rightarrow> Inr (PFloat (fadd u w)))))
           | None \<Rightarrow> Inl TypeError)
      | None \<Rightarrow>
          (case a of
             PStr s \<Rightarrow> (case b of PStr t \<Rightarrow> Inr (PStr (s @ t)) | _ \<Rightarrow> Inl TypeError)
           | _ \<Rightarrow> Inl TypeError))"

text \<open>
  \<^verbatim>\<open>a / b\<close>: true division of numbers, a float. Of two ints it is the exact quotient
  rounded once, \<^verbatim>\<open>OverflowError\<close> when that is out of range; with a float, an int
  operand is converted first. A zero divisor raises \<^verbatim>\<open>ZeroDivisionError\<close>.
\<close>

definition py_truediv :: "pyval \<Rightarrow> pyval \<Rightarrow> py_error + pyval" where
  "py_truediv a b =
     (case py_num a of
        Some x \<Rightarrow>
          (case py_num b of
             Some y \<Rightarrow>
               (case (py_int a, py_int b) of
                  (Some i, Some j) \<Rightarrow>
                    if j = 0 then Inl ZeroDivisionError
                    else (let d = round_double ((i < 0) \<noteq> (j < 0)) (of_int i / of_int j)
                          in if is_finite d then Inr (PFloat d) else Inl OverflowError)
                | _ \<Rightarrow>
                    (case py_float a of
                       Inl e \<Rightarrow> Inl e
                     | Inr u \<Rightarrow>
                         (case py_float b of
                            Inl e \<Rightarrow> Inl e
                          | Inr w \<Rightarrow>
                              if num_eq (num_of_dbl w) (Finite 0) then Inl ZeroDivisionError
                              else Inr (PFloat (fdiv u w)))))
           | None \<Rightarrow> Inl TypeError)
      | None \<Rightarrow> Inl TypeError)"

text \<open>
  \<^verbatim>\<open>round(x, 2)\<close>: a float is rounded as \<open>fround2\<close> says; an int or bool comes back
  as the int it is; anything else raises.
\<close>

definition py_round2 :: "pyval \<Rightarrow> py_error + pyval" where
  "py_round2 v =
     (case v of
        PFloat x \<Rightarrow> Inr (PFloat (fround2 x))
      | PInt i \<Rightarrow> Inr (PInt i)
      | PBool b \<Rightarrow> Inr (PInt (if b then 1 else 0))
      | _ \<Rightarrow> Inl TypeError)"

text \<open>\<^verbatim>\<open>record[key]\<close> raises \<^verbatim>\<open>KeyError\<close> on a missing key; \<^verbatim>\<open>record.get(key, d)\<close> does not.\<close>

definition py_getitem :: "jrecord \<Rightarrow> string \<Rightarrow> py_error + pyobj" where
  "py_getitem r k = (case r k of None \<Rightarrow> Inl KeyError | Some ob \<Rightarrow> Inr ob)"

definition py_get :: "jrecord \<Rightarrow> string \<Rightarrow> pyval \<Rightarrow> pyval" where
  "py_get r k dflt = (case r k of None \<Rightarrow> dflt | Some ob \<Rightarrow> obj_val ob)"

text \<open>\<^verbatim>\<open>max(xs)\<close> and \<^verbatim>\<open>min(xs)\<close> of a list of ints raise \<^verbatim>\<open>ValueError\<close> on the empty list.\<close>

fun py_max :: "int list \<Rightarrow> py_error + int" where
  "py_max [] = Inl ValueError"
| "py_max (x # xs) = Inr (fold max xs x)"

fun py_min :: "int list \<Rightarrow> py_error + int" where
  "py_min [] = Inl ValueError"
| "py_min (x # xs) = Inr (fold min xs x)"

text \<open>\<^verbatim>\<open>xs[0]\<close> raises \<^verbatim>\<open>IndexError\<close> on the empty list.\<close>

fun py_first :: "'a list \<Rightarrow> py_error + 'a" where
  "py_first [] = Inl IndexError"
| "py_first (x # xs) = Inr x"

text \<open>
  \<^verbatim>\<open>sorted(xs)\<close> compares with \<^verbatim>\<open><\<close> only and raises as soon as a comparison does.
  It is modelled as an insertion sort; a list of at most one element is never compared.
\<close>

fun py_insert :: "pyval \<Rightarrow> pyval list \<Rightarrow> py_error + pyval list" where
  "py_insert x [] = Inr [x]"
| "py_insert x (y # ys) =
     (case py_lt y x of
        Inl e \<Rightarrow> Inl e
      | Inr lt \<Rightarrow>
          if lt then (case py_insert x ys of Inl e \<Rightarrow> Inl e | Inr zs \<Rightarrow> Inr (y # zs))
          else Inr (x # y # ys))"

fun py_sorted :: "pyval list \<Rightarrow> py_error + pyval list" where
  "py_sorted [] = Inr []"
| "py_sorted (x # xs) =
     (case py_sorted xs of Inl e \<Rightarrow> Inl e | Inr ys \<Rightarrow> py_insert x ys)"

subsection \<open>Local dictionaries\<close>

text \<open>
  A \<^verbatim>\<open>dict\<close> built inside a method keeps its keys in insertion order, and the language
  query reads that order, so it is a list of pairs. A key is found when it is the same
  object as a key of the dict or \<^verbatim>\<open>==\<close> to one (equal keys hash alike). Of the values
  here only NaN is not \<^verbatim>\<open>==\<close> to itself, every key the methods use is an object of the
  loaded data, and the decoder hands out one object for every \<^verbatim>\<open>NaN\<close> it reads: among
  keys, NaN finds NaN. Storing under a key that is present keeps the key's place.
\<close>

definition key_eq :: "pyval \<Rightarrow> pyval \<Rightarrow> bool" where
  "key_eq a b = (py_eq a b \<or> (a = PFloat NaN \<and> b = PFloat NaN))"

fun dict_contains :: "(pyval \<times> 'v) list \<Rightarrow> pyval \<Rightarrow> bool" where
  "dict_contains [] k = False"
| "dict_contains (kv # d) k = (key_eq (fst kv) k \<or> dict_contains d k)"

fun dict_lookup :: "(pyval \<times> 'v) list \<Rightarrow> pyval \<Rightarrow> py_error + 'v" where
  "dict_lookup [] k = Inl KeyError"
| "dict_lookup (kv # d) k = (if key_eq (fst kv) k then Inr (snd kv) else dict_lookup d k)"

fun dict_store :: "(pyval \<times> 'v) list \<Rightarrow> pyval \<Rightarrow> 'v \<Rightarrow> (pyval \<times> 'v) list" where
  "dict_store [] k v = [(k, v)]"
| "dict_store (kv # d) k v =
     (if key_eq (fst kv) k then (fst kv, v) # d else kv # dict_store d k v)"

section \<open>The class \<^verbatim>\<open>SimpleDataTool\<close>\<close>

text \<open>
  The four private attributes that \<^verbatim>\<open>__init__\<close> fills from the JSON files. Reading the
  files is outside the model: a tool is given by the four lists it holds.
\<close>

record SimpleDataTool =
  agent_data :: "jrecord list"
  claim_handler_data :: "jrecord list"
  claim_data :: "jrecord list"
  disaster_data :: "jrecord list"

subsection \<open>Test set one\<close>

fun closed_claims_loop :: "jrecord list \<Rightarrow> int \<Rightarrow> py_error + int" where
  "closed_claims_loop [] num_closed_claims = Inr num_closed_claims"
| "closed_claims_loop (claim # rest) num_closed_claims =
     (case py_getitem claim ''status'' of
        Inl e \<Rightarrow> Inl e
      | Inr st \<Rightarrow>
          if py_eq (obj_val st) (PStr ''Closed'')
          then closed_claims_loop rest (num_closed_claims + 1)
          else closed_claims_loop rest num_closed_claims)"

definition get_num_closed_claims :: "SimpleDataTool \<Rightarrow> py_error + pyval" where
  "get_num_closed_claims self =
     (case closed_claims_loop (claim_data self) 0 of
        Inl e \<Rightarrow> Inl e
      | Inr n \<Rightarrow> Inr (PInt n))"

fun handler_claims_loop :: "jrecord list \<Rightarrow> pyval \<Rightarrow> int \<Rightarrow> py_error + int" where
  "handler_claims_loop [] claim_handler_id num_claims = Inr num_claims"
| "handler_claims_loop (claim # rest) claim_handler_id num_claims =
     (case py_getitem claim ''claim_handler_assigned_id'' of
        Inl e \<Rightarrow> Inl e
      | Inr h \<Rightarrow>
          if py_eq (obj_val h) claim_handler_id
          then handler_claims_loop rest claim_handler_id (num_claims + 1)
          else handler_claims_loop rest claim_handler_id num_claims)"

definition get_num_claims_for_claim_handler_id :: "SimpleDataTool \<Rightarrow> pyval \<Rightarrow> py_error + pyval" where
  "get_num_claims_for_claim_handler_id self claim_handler_id =
     (case handler_claims_loop (claim_data self) claim_handler_id 0 of
        Inl e \<Rightarrow> Inl e
      | Inr n \<Rightarrow> Inr (PInt n))"

fun state_disasters_loop :: "jrecord list \<Rightarrow> pyval \<Rightarrow> int \<Rightarrow> py_error + int" where
  "state_disasters_loop [] state stateDisasters = Inr stateDisasters"
| "state_disasters_loop (disaster # rest) state stateDisasters =
     (case py_getitem disaster ''state'' of
        Inl e \<Rightarrow> Inl e
      | Inr s \<Rightarrow>
          if py_eq (obj_val s) state
          then state_disasters_loop rest state (stateDisasters + 1)
          else state_disasters_loop rest state stateDisasters)"

definition get_num_disasters_for_state :: "SimpleDataTool \<Rightarrow> pyval \<Rightarrow> py_error + pyval" where
  "get_num_disasters_for_state self state =
     (case state_disasters_loop (disaster_data self) state 0 of
        Inl e \<Rightarrow> Inl e
      | Inr n \<Rightarrow> Inr (PInt n))"

subsection \<open>Test set two\<close>

text \<open>
  \<^verbatim>\<open>totalDisasterCost\<close> starts as the float 0.0 and is returned as it stands after the
  loop: the method has no call of \<^verbatim>\<open>round\<close>.
\<close>

fun disaster_cost_loop :: "jrecord list \<Rightarrow> pyval \<Rightarrow> pyval \<Rightarrow> py_error + pyval" where
  "disaster_cost_loop [] disaster_id totalDisasterCost = Inr totalDisasterCost"
| "disaster_cost_loop (claim # rest) disaster_id totalDisasterCost =
     (case py_getitem claim ''disaster_id'' of
        Inl e \<Rightarrow> Inl e
      | Inr d \<Rightarrow>
          if py_eq (obj_val d) disaster_id
          then (case py_getitem claim ''estimate_cost'' of
                  Inl e \<Rightarrow> Inl e
                | Inr c \<Rightarrow>
                    (case py_add totalDisasterCost (obj_val c) of
                       Inl e \<Rightarrow> Inl e
                     | Inr t \<Rightarrow> disaster_cost_loop rest disaster_id t))
          else disaster_cost_loop rest disaster_id totalDisasterCost)"

definition get_total_claim_cost_for_disaster :: "SimpleDataTool \<Rightarrow> pyval \<Rightarrow> py_error + pyval" where
  "get_total_claim_cost_for_disaster self disaster_id =
     (case disaster_cost_loop (claim_data self) disaster_id (PFloat (Fin 0)) of
        Inl e \<Rightarrow> Inl e
      | Inr totalDisasterCost \<Rightarrow>
          if py_eq totalDisasterCost (PFloat (Fin 0)) then Inr PNone else Inr totalDisasterCost)"

fun handler_cost_loop ::
  "jrecord list \<Rightarrow> pyval \<Rightarrow> pyval \<Rightarrow> int \<Rightarrow> py_error + pyval \<times> int" where
  "handler_cost_loop [] claim_handler_id total_claim_cost num_claims =
     Inr (total_claim_cost, num_claims)"
| "handler_cost_loop (claim # rest) claim_handler_id total_claim_cost num_claims =
     (case py_getitem claim ''claim_handler_assigned_id'' of
        Inl e \<Rightarrow> Inl e
      | Inr h \<Rightarrow>
          if py_eq (obj_val h) claim_handler_id
          then (case py_getitem claim ''estimate_cost'' of
                  Inl e \<Rightarrow> Inl e
                | Inr c \<Rightarrow>
                    (case py_add total_claim_cost (obj_val c) of
                       Inl e \<Rightarrow> Inl e
                     | Inr t \<Rightarrow> handler_cost_loop rest claim_handler_id t (num_claims + 1)))
          else handler_cost_loop rest claim_handler_id total_claim_cost num_claims)"

definition get_average_claim_cost_for_claim_handler ::
  "SimpleDataTool \<Rightarrow> pyval \<Rightarrow> py_error + pyval" where
  "get_average_claim_cost_for_claim_handler self claim_handler_id =
     (case get_num_claims_for_claim_handler_id self claim_handler_id of
        Inl e \<Rightarrow> Inl e
      | Inr n \<Rightarrow>
          if py_eq n (PInt 0) then Inr PNone
          else (case handler_cost_loop (claim_data self) claim_handler_id (PFloat (Fin 0)) 0 of
                  Inl e \<Rightarrow> Inl e
                | Inr (total_claim_cost, num_claims) \<Rightarrow>
                    (case py_truediv total_claim_cost (PInt num_claims) of
                       Inl e \<Rightarrow> Inl e
                     | Inr q \<Rightarrow> py_round2 q)))"

text \<open>
  The grouping loop shared (as copied text) by the two state queries: one counter per
  state, in a dictionary.
\<close>

fun state_count_loop ::
  "jrecord list \<Rightarrow> (pyval \<times> int) list \<Rightarrow> py_error + (pyval \<times> int) list" where
  "state_count_loop [] state_disaster_count = Inr state_disaster_count"
| "state_count_loop (disaster # rest) state_disaster_count =
     (case py_getitem disaster ''state'' of
        Inl e \<Rightarrow> Inl e
      | Inr s \<Rightarrow>
          if dict_contains state_disaster_count (obj_val s)
          then (case dict_lookup state_disaster_count (obj_val s) of
                  Inl e \<Rightarrow> Inl e
                | Inr c \<Rightarrow>
                    state_count_loop rest (dict_store state_disaster_count (obj_val s) (c + 1)))
          else state_count_loop rest (dict_store state_disaster_count (obj_val s) 1))"

definition get_state_with_most_disasters :: "SimpleDataTool \<Rightarrow> py_error + pyval" where
  "get_state_with_most_disasters self =
     (case state_count_loop (disaster_data self) [] of
        Inl e \<Rightarrow> Inl e
      | Inr state_disaster_count \<Rightarrow>
          (case py_max (map snd state_disaster_count) of
             Inl e \<Rightarrow> Inl e
           | Inr max_disasters \<Rightarrow>
               (case py_sorted
                       (map fst (filter (\<lambda>kv. snd kv = max_disasters) state_disaster_count)) of
                  Inl e \<Rightarrow> Inl e
                | Inr sorted_states \<Rightarrow> py_first sorted_states)))"

definition get_state_with_least_disasters :: "SimpleDataTool \<Rightarrow> py_error + pyval" where
  "get_state_with_least_disasters self =
     (case state_count_loop (disaster_data self) [] of
        Inl e \<Rightarrow> Inl e
      | Inr state_disaster_count \<Rightarrow>
          (case py_min (map snd state_disaster_count) of
             Inl e \<Rightarrow> Inl e
           | Inr min_disasters \<Rightarrow>
               (case py_sorted
                       (map fst (filter (\<lambda>kv. snd kv = min_disasters) state_disaster_count)) of
                  Inl e \<Rightarrow> Inl e
                | Inr sorted_states \<Rightarrow> py_first sorted_states)))"

fun language_count_loop ::
  "jrecord list \<Rightarrow> pyval \<Rightarrow> (pyval \<times> int) list \<Rightarrow> py_error + (pyval \<times> int) list" where
  "language_count_loop [] state language_count = Inr language_count"
| "language_count_loop (agent # rest) state language_count =
     (case py_getitem agent ''state'' of
        Inl e \<Rightarrow> Inl e
      | Inr s \<Rightarrow>
          if py_eq (obj_val s) state
          then (case py_getitem agent ''secondary_language'' of
                  Inl e \<Rightarrow> Inl e
                | Inr lang \<Rightarrow>
                    if dict_contains language_count (obj_val lang)
                    then (case dict_lookup language_count (obj_val lang) of
                            Inl e \<Rightarrow> Inl e
                          | Inr c \<Rightarrow>
                              language_count_loop rest state
                                (dict_store language_count (obj_val lang) (c + 1)))
                    else language_count_loop rest state
                           (dict_store language_count (obj_val lang) 1))
          else language_count_loop rest state language_count)"

definition get_most_spoken_agent_language_by_state ::
  "SimpleDataTool \<Rightarrow> pyval \<Rightarrow> py_error + pyval" where
  "get_most_spoken_agent_language_by_state self state =
     (case language_count_loop (agent_data self) state [] of
        Inl e \<Rightarrow> Inl e
      | Inr language_count \<Rightarrow>
          if language_count = [] then Inr (PStr [])
          else (case py_max (map snd language_count) of
                  Inl e \<Rightarrow> Inl e
                | Inr max_count \<Rightarrow>
                    py_first (map fst (filter (\<lambda>kv. snd kv = max_count) language_count))))"

text \<open>
  The agent is compared with \<^verbatim>\<open>is\<close>, the other filters of the class with \<^verbatim>\<open>==\<close>.
  \<^verbatim>\<open>and\<close> and \<^verbatim>\<open>or\<close> evaluate their right operand only when the left one does not
  decide.
\<close>

fun open_claims_loop :: "jrecord list \<Rightarrow> pyobj \<Rightarrow> pyval \<Rightarrow> int \<Rightarrow> py_error + int" where
  "open_claims_loop [] agent_id min_severity_rating num_claims = Inr num_claims"
| "open_claims_loop (claim # rest) agent_id min_severity_rating num_claims =
     (case py_getitem claim ''agent_assigned_id'' of
        Inl e \<Rightarrow> Inl e
      | Inr a \<Rightarrow>
          if py_is a agent_id
          then (case py_getitem claim ''severity_rating'' of
                  Inl e \<Rightarrow> Inl e
                | Inr sev \<Rightarrow>
                    (case py_ge (obj_val sev) min_severity_rating of
                       Inl e \<Rightarrow> Inl e
                     | Inr ge \<Rightarrow>
                         if ge
                         then (case py_getitem claim ''status'' of
                                 Inl e \<Rightarrow> Inl e
                               | Inr st \<Rightarrow>
                                   if \<not> py_eq (obj_val st) (PStr ''Closed'')
                                   then open_claims_loop rest agent_id min_severity_rating
                                          (num_claims + 1)
                                   else open_claims_loop rest agent_id min_severity_rating
                                          num_claims)
                         else open_claims_loop rest agent_id min_severity_rating num_claims))
          else open_claims_loop rest agent_id min_severity_rating num_claims)"

definition get_num_of_open_claims_for_agent_and_severity ::
  "SimpleDataTool \<Rightarrow> pyobj \<Rightarrow> pyval \<Rightarrow> py_error + pyval" where
  "get_num_of_open_claims_for_agent_and_severity self agent_id min_severity_rating =
     (case py_lt min_severity_rating (PInt 1) of
        Inl e \<Rightarrow> Inl e
      | Inr too_low \<Rightarrow>
          if too_low then Inr (PInt (- 1))
          else (case py_gt min_severity_rating (PInt 10) of
                  Inl e \<Rightarrow> Inl e
                | Inr too_high \<Rightarrow>
                    if too_high then Inr (PInt (- 1))
                    else (case open_claims_loop (claim_data self) agent_id
                                 min_severity_rating 0 of
                            Inl e \<Rightarrow> Inl e
                          | Inr num_claims \<Rightarrow>
                              if num_claims = 0 then Inr PNone else Inr (PInt num_claims))))"

subsection \<open>Test set three\<close>

fun declared_after_loop :: "jrecord list \<Rightarrow> int \<Rightarrow> py_error + int" where
  "declared_after_loop [] count = Inr count"
| "declared_after_loop (disaster # rest) count =
     (case py_getitem disaster ''declared_date'' of
        Inl e \<Rightarrow> Inl e
      | Inr declared_date \<Rightarrow>
          (case py_getitem disaster ''end_date'' of
             Inl e \<Rightarrow> Inl e
           | Inr end_date \<Rightarrow>
               (case py_gt (obj_val declared_date) (obj_val end_date) of
                  Inl e \<Rightarrow> Inl e
                | Inr after \<Rightarrow>
                    if after then declared_after_loop rest (count + 1)
                    else declared_after_loop rest count)))"

definition get_num_disasters_declared_after_end_date :: "SimpleDataTool \<Rightarrow> py_error + pyval" where
  "get_num_disasters_declared_after_end_date self =
     (case declared_after_loop (disaster_data self) 0 of
        Inl e \<Rightarrow> Inl e
      | Inr n \<Rightarrow> Inr (PInt n))"

text \<open>
  \<^verbatim>\<open>build_map_of_agents_to_total_claim_cost\<close> runs three loops over one dictionary:
  every agent id gets the int 0; every claim adds its cost to the entry of its agent, or
  sets the entry to \<^verbatim>\<open>None\<close> when the id is not a key or the cost is \<^verbatim>\<open>None\<close>; every
  entry that is not \<^verbatim>\<open>None\<close> is rounded. \<^verbatim>\<open>claim.get\<close> gives \<^verbatim>\<open>None\<close> for a
  missing agent id and the int 0 for a missing cost. In the second loop
  \<^verbatim>\<open>d[agent_id] += cost\<close> reads the entry, adds, and stores: when the entry is
  \<^verbatim>\<open>None\<close> the addition raises.
\<close>

fun agent_init_loop ::
  "jrecord list \<Rightarrow> (pyval \<times> pyval) list \<Rightarrow> py_error + (pyval \<times> pyval) list" where
  "agent_init_loop [] agent_to_total_claim_cost = Inr agent_to_total_claim_cost"
| "agent_init_loop (agent # rest) agent_to_total_claim_cost =
     (case py_getitem agent ''id'' of
        Inl e \<Rightarrow> Inl e
      | Inr agent_id \<Rightarrow>
          agent_init_loop rest (dict_store agent_to_total_claim_cost (obj_val agent_id) (PInt 0)))"

fun claim_cost_loop ::
  "jrecord list \<Rightarrow> (pyval \<times> pyval) list \<Rightarrow> py_error + (pyval \<times> pyval) list" where
  "claim_cost_loop [] agent_to_total_claim_cost = Inr agent_to_total_claim_cost"
| "claim_cost_loop (claim # rest) agent_to_total_claim_cost =
     (let agent_id = py_get claim ''agent_assigned_id'' PNone;
          cost = py_get claim ''estimate_cost'' (PInt 0)
      in if dict_contains agent_to_total_claim_cost agent_id \<and> cost \<noteq> PNone
         then (case dict_lookup agent_to_total_claim_cost agent_id of
                 Inl e \<Rightarrow> Inl e
               | Inr total_cost \<Rightarrow>
                   (case py_add total_cost cost of
                      Inl e \<Rightarrow> Inl e
                    | Inr t \<Rightarrow>
                        claim_cost_loop rest (dict_store agent_to_total_claim_cost agent_id t)))
         else claim_cost_loop rest (dict_store agent_to_total_claim_cost agent_id PNone))"

text \<open>
  The last loop walks the items of the dictionary and stores into the dictionary it
  walks. A store under a key that is present changes no other entry, so the items are
  the ones the loop started with.
\<close>

fun round_loop ::
  "(pyval \<times> pyval) list \<Rightarrow> (pyval \<times> pyval) list \<Rightarrow> py_error + (pyval \<times> pyval) list" where
  "round_loop [] agent_to_total_claim_cost = Inr agent_to_total_claim_cost"
| "round_loop (item # items) agent_to_total_claim_cost =
     (if snd item \<noteq> PNone
      then (case py_round2 (snd item) of
              Inl e \<Rightarrow> Inl e
            | Inr r \<Rightarrow> round_loop items (dict_store agent_to_total_claim_cost (fst item) r))
      else round_loop items agent_to_total_claim_cost)"

definition build_map_of_agents_to_total_claim_cost ::
  "SimpleDataTool \<Rightarrow> py_error + (pyval \<times> pyval) list" where
  "build_map_of_agents_to_total_claim_cost self =
     (case agent_init_loop (agent_data self) [] of
        Inl e \<Rightarrow> Inl e
      | Inr d0 \<Rightarrow>
          (case claim_cost_loop (claim_data self) d0 of
             Inl e \<Rightarrow> Inl e
           | Inr d1 \<Rightarrow> round_loop d1 d1))"

text \<open>The body of the density method is its docstring alone: it returns \<^verbatim>\<open>None\<close>.\<close>

definition calculate_disaster_claim_density :: "SimpleDataTool \<Rightarrow> pyval \<Rightarrow> py_error + pyval" where
  "calculate_disaster_claim_density self disaster_id = Inr PNone"

subsection \<open>Test set four\<close>

text \<open>The body is \<^verbatim>\<open>pass\<close>.\<close>

definition get_top_three_months_with_highest_num_of_claims_desc ::
  "SimpleDataTool \<Rightarrow> py_error + pyval" where
  "get_top_three_months_with_highest_num_of_claims_desc self = Inr PNone"

subsection \<open>The methods as one function\<close>

text \<open>
  A query names a method with its arguments; \<open>answer\<close> is what the call returns or
  raises. The four accessors hand out the lists themselves.
\<close>

datatype query =
    Get_agent_data
  | Get_claim_handler_data
  | Get_disaster_data
  | Get_claim_data
  | Get_num_closed_claims
  | Get_num_claims_for_claim_handler_id pyval
  | Get_num_disasters_for_state pyval
  | Get_total_claim_cost_for_disaster pyval
  | Get_average_claim_cost_for_claim_handler pyval
  | Get_state_with_most_disasters
  | Get_state_with_least_disasters
  | Get_most_spoken_agent_language_by_state pyval
  | Get_num_of_open_claims_for_agent_and_severity pyobj pyval
  | Get_num_disasters_declared_after_end_date
  | Build_map_of_agents_to_total_claim_cost
  | Calculate_disaster_claim_density pyval
  | Get_top_three_months_with_highest_num_of_claims_desc

datatype result = Val pyval | Dict "(pyval \<times> pyval) list" | Records "jrecord list"

fun answer :: "query \<Rightarrow> SimpleDataTool \<Rightarrow> py_error + result" where
  "answer Get_agent_data self = Inr (Records (agent_data self))"
| "answer Get_claim_handler_data self = Inr (Records (claim_handler_data self))"
| "answer Get_disaster_data self = Inr (Records (disaster_data self))"
| "answer Get_claim_data self = Inr (Records (claim_data self))"
| "answer Get_num_closed_claims self = map_sum id Val (get_num_closed_claims self)"
| "answer (Get_num_claims_for_claim_handler_id h) self =
     map_sum id Val (get_num_claims_for_claim_handler_id self h)"
| "answer (Get_num_disasters_for_state s) self =
     map_sum id Val (get_num_disasters_for_state self s)"
| "answer (Get_total_claim_cost_for_disaster d) self =
     map_sum id Val (get_total_claim_cost_for_disaster self d)"
| "answer (Get_average_claim_cost_for_claim_handler h) self =
     map_sum id Val (get_average_claim_cost_for_claim_handler self h)"
| "answer Get_state_with_most_disasters self =
     map_sum id Val (get_state_with_most_disasters self)"
| "answer Get_state_with_least_disasters self =
     map_sum id Val (get_state_with_least_disasters self)"
| "answer (Get_most_spoken_agent_language_by_state s) self =
     map_sum id Val (get_most_spoken_agent_language_by_state self s)"
| "answer (Get_num_of_open_claims_for_agent_and_severity a m) self =
     map_sum id Val (get_num_of_open_claims_for_agent_and_severity self a m)"
| "answer Get_num_disasters_declared_after_end_date self =
     map_sum id Val (get_num_disasters_declared_after_end_date self)"
| "answer Build_map_of_agents_to_total_claim_cost self =
     map_sum id Dict (build_map_of_agents_to_total_claim_cost self)"
| "answer (Calculate_disaster_claim_density d) self =
     map_sum id Val (calculate_disaster_claim_density self d)"
| "answer Get_top_three_months_with_highest_num_of_claims_desc self =
     map_sum id Val (get_top_three_months_with_highest_num_of_claims_desc self)"

section \<open>Quantities the properties speak of\<close>

text \<open>
  What follows is not code of the class: it names the records, sums and counts that the
  statements below compare the methods with.
\<close>

definition has_key :: "jrecord \<Rightarrow> string \<Rightarrow> bool" where
  "has_key r k = (r k \<noteq> None)"

definition num_field :: "jrecord \<Rightarrow> string \<Rightarrow> bool" where
  "num_field r k = (case r k of None \<Rightarrow> False | Some ob \<Rightarrow> py_num (obj_val ob) \<noteq> None)"

text \<open>
  The sum of a list of values as Python computes it: \<^verbatim>\<open>acc += x\<close> for each element in
  turn. On floats every addition is rounded, so the order of the list counts; the sum
  raises when an addition does.
\<close>

fun py_sum :: "pyval \<Rightarrow> pyval list \<Rightarrow> py_error + pyval" where
  "py_sum acc [] = Inr acc"
| "py_sum acc (x # xs) = (case py_add acc x of Inl e \<Rightarrow> Inl e | Inr t \<Rightarrow> py_sum t xs)"

text \<open>The claims of a disaster, in scan order, and their costs.\<close>

definition claims_of_disaster :: "jrecord list \<Rightarrow> pyval \<Rightarrow> jrecord list" where
  "claims_of_disaster claims disaster_id =
     filter (\<lambda>c. py_eq (py_get c ''disaster_id'' PNone) disaster_id) claims"

definition disaster_costs :: "jrecord list \<Rightarrow> pyval \<Rightarrow> pyval list" where
  "disaster_costs claims disaster_id =
     map (\<lambda>c. py_get c ''estimate_cost'' PNone) (claims_of_disaster claims disaster_id)"

text \<open>
  Two keys find each other in a dictionary exactly when they have the same image under
  \<open>py_key\<close>, so a dictionary read through \<open>norm_dict\<close> is an association list with
  plain equality on its keys.
\<close>

definition py_key :: "pyval \<Rightarrow> pyval + num" where
  "py_key v = (case py_num v of Some x \<Rightarrow> Inr x | None \<Rightarrow> Inl v)"

definition norm_dict :: "(pyval \<times> 'v) list \<Rightarrow> ((pyval + num) \<times> 'v) list" where
  "norm_dict d = map (\<lambda>kv. (py_key (fst kv), snd kv)) d"

text \<open>Fields that hold a string, and the string they hold.\<close>

definition str_field :: "jrecord \<Rightarrow> string \<Rightarrow> bool" where
  "str_field r k =
     (case r k of None \<Rightarrow> False | Some ob \<Rightarrow> (case obj_val ob of PStr s \<Rightarrow> True | _ \<Rightarrow> False))"

definition field_str :: "jrecord \<Rightarrow> string \<Rightarrow> string" where
  "field_str r k = (case py_get r k PNone of PStr s \<Rightarrow> s | _ \<Rightarrow> [])"

definition state_names :: "jrecord list \<Rightarrow> string list" where
  "state_names disasters = map (\<lambda>r. field_str r ''state'') disasters"

text \<open>
  The two grouping loops build the same dictionary: one counter per key, keys in the
  order of their first occurrence. \<open>tally\<close> is that dictionary for a list of keys
  compared with plain equality.
\<close>

fun tally :: "'a list \<Rightarrow> ('a \<times> int) list \<Rightarrow> ('a \<times> int) list" where
  "tally [] d = d"
| "tally (k # ks) d =
     tally ks (AList.update k (case map_of d k of Some c \<Rightarrow> c + 1 | None \<Rightarrow> 1) d)"

text \<open>
  An element of a list that occurs there at least (at most) as often as every other
  element does.
\<close>

definition is_most_frequent :: "'a list \<Rightarrow> 'a \<Rightarrow> bool" where
  "is_most_frequent xs x = (x \<in> set xs \<and> (\<forall>t\<in>set xs. count_list xs t \<le> count_list xs x))"

definition is_least_frequent :: "'a list \<Rightarrow> 'a \<Rightarrow> bool" where
  "is_least_frequent xs x = (x \<in> set xs \<and> (\<forall>t\<in>set xs. count_list xs x \<le> count_list xs t))"

text \<open>The agents of a state in scan order, and their secondary languages in that order.\<close>

definition agents_of_state :: "jrecord list \<Rightarrow> pyval \<Rightarrow> jrecord list" where
  "agents_of_state agents state = filter (\<lambda>a. py_eq (py_get a ''state'' PNone) state) agents"

definition languages_of_state :: "jrecord list \<Rightarrow> pyval \<Rightarrow> string list" where
  "languages_of_state agents state =
     map (\<lambda>a. field_str a ''secondary_language'') (agents_of_state agents state)"

text \<open>
  The claims that refer to an agent id, in scan order: those whose
  \<^verbatim>\<open>agent_assigned_id\<close> finds the id as a dictionary key (a missing
  \<^verbatim>\<open>agent_assigned_id\<close> reads as \<^verbatim>\<open>None\<close>, as in \<^verbatim>\<open>claim.get\<close>). Their costs, a
  missing \<^verbatim>\<open>estimate_cost\<close> reading as the int 0; and the claims whose cost is
  \<^verbatim>\<open>None\<close>.
\<close>

definition claims_of_agent :: "jrecord list \<Rightarrow> pyval \<Rightarrow> jrecord list" where
  "claims_of_agent claims agent_id =
     filter (\<lambda>c. key_eq (py_get c ''agent_assigned_id'' PNone) agent_id) claims"

definition agent_costs :: "jrecord list \<Rightarrow> pyval \<Rightarrow> pyval list" where
  "agent_costs claims agent_id =
     map (\<lambda>c. py_get c ''estimate_cost'' (PInt 0)) (claims_of_agent claims agent_id)"

definition null_cost :: "jrecord \<Rightarrow> bool" where
  "null_cost c = (py_get c ''estimate_cost'' (PInt 0) = PNone)"

text \<open>
  What it is for \<open>entry\<close> to be \<open>amount\<close> rounded to two decimals. An int is its own
  rounding. For a finite float of value \<open>x\<close> there is an integer \<open>n\<close> of hundredths
  with \<open>n / 100\<close> nearest to \<open>x\<close> (\<open>n\<close> even when \<open>x\<close> lies midway between two
  hundredths), and the entry is the double nearest to \<open>n / 100\<close>, with the sign of
  \<open>x\<close> when it is zero. An infinity or NaN has no decimals to round.
\<close>

definition hundredths :: "rat \<Rightarrow> int \<Rightarrow> bool" where
  "hundredths x n =
     (\<bar>x * 100 - of_int n\<bar> \<le> 1 / 2 \<and> (\<bar>x * 100 - of_int n\<bar> = 1 / 2 \<longrightarrow> even n))"

definition rounded_to_2_decimals :: "pyval \<Rightarrow> pyval \<Rightarrow> bool" where
  "rounded_to_2_decimals amount entry =
     (case amount of
        PInt i \<Rightarrow> entry = PInt i
      | PFloat x \<Rightarrow>
          if is_finite x
          then (\<exists>n. hundredths (dbl_val x) n
                    \<and> entry = PFloat (round_double (sign_bit x) (of_int n / 100)))
          else entry = PFloat x
      | _ \<Rightarrow> False)"

text \<open>The keys the first loop of the agent map stores, read through \<open>py_key\<close>.\<close>

definition agent_keys :: "jrecord list \<Rightarrow> (pyval + num) set" where
  "agent_keys agents = (\<lambda>a. py_key (py_get a ''id'' PNone)) ` set agents"

text \<open>
  The claims of an agent (by \<^verbatim>\<open>==\<close>) that are not closed and have at least the given
  severity.
\<close>

definition open_claims_of_agent :: "jrecord list \<Rightarrow> pyval \<Rightarrow> pyval \<Rightarrow> jrecord list" where
  "open_claims_of_agent claims agent_id min_severity_rating =
     filter (\<lambda>c. py_eq (py_get c ''agent_assigned_id'' PNone) agent_id
                \<and> \<not> py_eq (py_get c ''status'' PNone) (PStr ''Closed'')
                \<and> py_ge (py_get c ''severity_rating'' PNone) min_severity_rating = Inr True)
       claims"

text \<open>
  The claims the method itself counts: those whose \<^verbatim>\<open>agent_assigned_id\<close> is the very
  object passed as agent id.
\<close>

definition same_object_claims :: "jrecord list \<Rightarrow> pyobj \<Rightarrow> pyval \<Rightarrow> jrecord list" where
  "same_object_claims claims agent_id min_severity_rating =
     filter (\<lambda>c. (case c ''agent_assigned_id'' of None \<Rightarrow> False | Some ob \<Rightarrow> py_is ob agent_id)
                \<and> \<not> py_eq (py_get c ''status'' PNone) (PStr ''Closed'')
                \<and> py_ge (py_get c ''severity_rating'' PNone) min_severity_rating = Inr True)
       claims"

definition int_field :: "jrecord \<Rightarrow> string \<Rightarrow> bool" where
  "int_field r k =
     (case r k of None \<Rightarrow> False | Some ob \<Rightarrow> (case obj_val ob of PInt i \<Rightarrow> True | _ \<Rightarrow> False))"

subsection \<open>Conditions under which a query returns\<close>

text \<open>
  A cost that float arithmetic takes without raising: a float, a bool, or an int of
  magnitude below \<open>2 ^ 53\<close>. (An int too large for a double raises
  \<^verbatim>\<open>OverflowError\<close> when it meets a float.)
\<close>

definition plain_cost :: "pyval \<Rightarrow> bool" where
  "plain_cost v =
     (case v of PFloat x \<Rightarrow> True | PInt i \<Rightarrow> \<bar>i\<bar> < 2 ^ 53 | PBool b \<Rightarrow> True | _ \<Rightarrow> False)"

text \<open>A running total: a float, or an int of magnitude at most \<open>B\<close>.\<close>

definition bounded_number :: "int \<Rightarrow> pyval \<Rightarrow> bool" where
  "bounded_number B v = (case v of PFloat x \<Rightarrow> True | PInt i \<Rightarrow> \<bar>i\<bar> \<le> B | _ \<Rightarrow> False)"

definition cost_field :: "jrecord \<Rightarrow> bool" where
  "cost_field c =
     (case c ''estimate_cost'' of None \<Rightarrow> False | Some ob \<Rightarrow> plain_cost (obj_val ob))"

definition known_agent :: "jrecord list \<Rightarrow> jrecord \<Rightarrow> bool" where
  "known_agent agents c =
     list_ex (\<lambda>a. key_eq (py_get a ''id'' PNone) (py_get c ''agent_assigned_id'' PNone)) agents"

text \<open>A Python list has fewer than \<open>2 ^ 63\<close> elements.\<close>

definition list_size_ok :: "'a list \<Rightarrow> bool" where
  "list_size_ok xs = (int (length xs) < 2 ^ 63)"

text \<open>
  For each query, conditions on the fields it reads under which it returns. They are
  sufficient, and stated per query: a query asks nothing of the fields it does not read.
\<close>

fun requires :: "query \<Rightarrow> SimpleDataTool \<Rightarrow> bool" where
  "requires Get_num_closed_claims self = list_all (\<lambda>c. has_key c ''status'') (claim_data self)"
| "requires (Get_num_claims_for_claim_handler_id h) self =
     list_all (\<lambda>c. has_key c ''claim_handler_assigned_id'') (claim_data self)"
| "requires (Get_num_disasters_for_state s) self =
     list_all (\<lambda>r. has_key r ''state'') (disaster_data self)"
| "requires (Get_total_claim_cost_for_disaster d) self =
     (list_all (\<lambda>c. has_key c ''disaster_id'') (claim_data self)
      \<and> list_all cost_field (claims_of_disaster (claim_data self) d))"
| "requires (Get_average_claim_cost_for_claim_handler h) self =
     (list_all (\<lambda>c. has_key c ''claim_handler_assigned_id'') (claim_data self)
      \<and> list_all cost_field
            (filter (\<lambda>c. py_eq (py_get c ''claim_handler_assigned_id'' PNone) h)
               (claim_data self))
      \<and> list_size_ok (claim_data self))"
| "requires Get_state_with_most_disasters self =
     (disaster_data self \<noteq> [] \<and> list_all (\<lambda>r. str_field r ''state'') (disaster_data self))"
| "requires Get_state_with_least_disasters self =
     (disaster_data self \<noteq> [] \<and> list_all (\<lambda>r. str_field r ''state'') (disaster_data self))"
| "requires (Get_most_spoken_agent_language_by_state s) self =
     (list_all (\<lambda>a. has_key a ''state'') (agent_data self)
      \<and> list_all (\<lambda>a. has_key a ''secondary_language'') (agents_of_state (agent_data self) s))"
| "requires (Get_num_of_open_claims_for_agent_and_severity a m) self =
     (py_num m \<noteq> None
      \<and> (py_lt m (PInt 1) = Inr True \<or> py_gt m (PInt 10) = Inr True
          \<or> list_all (\<lambda>c. has_key c ''agent_assigned_id'' \<and> num_field c ''severity_rating''
                           \<and> has_key c ''status'') (claim_data self)))"
| "requires Get_num_disasters_declared_after_end_date self =
     list_all (\<lambda>r. str_field r ''declared_date'' \<and> str_field r ''end_date'')
       (disaster_data self)"
| "requires Build_map_of_agents_to_total_claim_cost self =
     (list_all (\<lambda>a. has_key a ''id'') (agent_data self)
      \<and> list_all (\<lambda>c. known_agent (agent_data self) c
                       \<and> plain_cost (py_get c ''estimate_cost'' (PInt 0))) (claim_data self)
      \<and> list_size_ok (claim_data self))"
| "requires q self = True"

section \<open>Example data sets\<close>

text \<open>The two claims of the specification's rounding scenario, both on disaster 1.\<close>

definition rounding_tool :: SimpleDataTool where
  "rounding_tool =
     \<lparr>agent_data = [], claim_handler_data = [],
      claim_data =
        [[''disaster_id'' \<mapsto> Obj 1 (PInt 1),
          ''estimate_cost'' \<mapsto> Obj 2 (PFloat (json_float 100.005))],
         [''disaster_id'' \<mapsto> Obj 3 (PInt 1),
          ''estimate_cost'' \<mapsto> Obj 4 (PFloat (json_float 50.00))]],
      disaster_data = []\<rparr>"

text \<open>
  Sums that float addition rounds: the claims of disaster 1 cost 0.1, 0.2 and -0.3, those
  of disaster 2 cost 1e16, 1.0 and -1e16; disaster 3 has a claim whose cost is the int
  \<open>10 ^ 400\<close>, too large for a double.
\<close>

definition drift_tool :: SimpleDataTool where
  "drift_tool =
     \<lparr>agent_data = [], claim_handler_data = [],
      claim_data =
        [[''disaster_id'' \<mapsto> Obj 1 (PInt 1), ''estimate_cost'' \<mapsto> Obj 2 (PFloat (json_float 0.1))],
         [''disaster_id'' \<mapsto> Obj 3 (PInt 2), ''estimate_cost'' \<mapsto> Obj 4 (PFloat (Fin (10 ^ 16)))],
         [''disaster_id'' \<mapsto> Obj 5 (PInt 1), ''estimate_cost'' \<mapsto> Obj 6 (PFloat (json_float 0.2))],
         [''disaster_id'' \<mapsto> Obj 7 (PInt 2), ''estimate_cost'' \<mapsto> Obj 8 (PFloat (Fin 1))],
         [''disaster_id'' \<mapsto> Obj 9 (PInt 1),
          ''estimate_cost'' \<mapsto> Obj 10 (PFloat (json_float (- 0.3)))],
         [''disaster_id'' \<mapsto> Obj 11 (PInt 2),
          ''estimate_cost'' \<mapsto> Obj 12 (PFloat (Fin (- (10 ^ 16))))],
         [''disaster_id'' \<mapsto> Obj 13 (PInt 3), ''estimate_cost'' \<mapsto> Obj 14 (PInt (10 ^ 400))]],
      disaster_data = []\<rparr>"

text \<open>
  Two ties: in Ohio Spanish and Arabic are spoken by two agents each, and Spanish is met
  first; New Jersey and Delaware have two disasters each, Maine and Alaska one each.
\<close>

definition tie_tool :: SimpleDataTool where
  "tie_tool =
     \<lparr>agent_data =
        [[''id'' \<mapsto> Obj 1 (PInt 1), ''state'' \<mapsto> Obj 2 (PStr ''Ohio''),
          ''secondary_language'' \<mapsto> Obj 3 (PStr ''Spanish'')],
         [''id'' \<mapsto> Obj 4 (PInt 2), ''state'' \<mapsto> Obj 5 (PStr ''Ohio''),
          ''secondary_language'' \<mapsto> Obj 6 (PStr ''Arabic'')],
         [''id'' \<mapsto> Obj 7 (PInt 3), ''state'' \<mapsto> Obj 8 (PStr ''Texas''),
          ''secondary_language'' \<mapsto> Obj 9 (PStr ''French'')],
         [''id'' \<mapsto> Obj 10 (PInt 4), ''state'' \<mapsto> Obj 11 (PStr ''Ohio''),
          ''secondary_language'' \<mapsto> Obj 12 (PStr ''Arabic'')],
         [''id'' \<mapsto> Obj 13 (PInt 5), ''state'' \<mapsto> Obj 14 (PStr ''Ohio''),
          ''secondary_language'' \<mapsto> Obj 15 (PStr ''Spanish'')]],
      claim_handler_data = [],
      claim_data = [],
      disaster_data =
        [[''state'' \<mapsto> Obj 21 (PStr ''New Jersey'')],
         [''state'' \<mapsto> Obj 22 (PStr ''Delaware'')],
         [''state'' \<mapsto> Obj 23 (PStr ''Maine'')],
         [''state'' \<mapsto> Obj 24 (PStr ''Delaware'')],
         [''state'' \<mapsto> Obj 25 (PStr ''New Jersey'')],
         [''state'' \<mapsto> Obj 26 (PStr ''Alaska'')]]\<rparr>"

text \<open>
  Four agents: agent 1 has two claims, agent 2 none, agent 3 two, agent 4 one with a
  \<^verbatim>\<open>null\<close> cost; one more claim names an agent 99 that does not exist.
\<close>

definition costs_tool :: SimpleDataTool where
  "costs_tool =
     \<lparr>agent_data =
        [[''id'' \<mapsto> Obj 1 (PInt 1)], [''id'' \<mapsto> Obj 2 (PInt 2)], [''id'' \<mapsto> Obj 3 (PInt 3)],
         [''id'' \<mapsto> Obj 4 (PInt 4)]],
      claim_handler_data = [],
      claim_data =
        [[''agent_assigned_id'' \<mapsto> Obj 11 (PInt 1),
          ''estimate_cost'' \<mapsto> Obj 12 (PFloat (json_float 100.005))],
         [''agent_assigned_id'' \<mapsto> Obj 13 (PInt 3), ''estimate_cost'' \<mapsto> Obj 14 (PInt 10)],
         [''agent_assigned_id'' \<mapsto> Obj 15 (PInt 1),
          ''estimate_cost'' \<mapsto> Obj 16 (PFloat (json_float 50.00))],
         [''agent_assigned_id'' \<mapsto> Obj 17 (PInt 4), ''estimate_cost'' \<mapsto> Obj 18 PNone],
         [''agent_assigned_id'' \<mapsto> Obj 19 (PInt 99),
          ''estimate_cost'' \<mapsto> Obj 20 (PFloat (json_float 7.5))],
         [''agent_assigned_id'' \<mapsto> Obj 21 (PInt 3),
          ''estimate_cost'' \<mapsto> Obj 22 (PFloat (json_float 0.25))]],
      disaster_data = []\<rparr>"

text \<open>
  Three agents with one claim each, of cost 2.675, 0.125 and 0.375. The double 2.675 lies
  below the decimal 2.675; 0.125 and 0.375 are doubles and lie midway between two
  hundredths.
\<close>

definition halves_tool :: SimpleDataTool where
  "halves_tool =
     \<lparr>agent_data =
        [[''id'' \<mapsto> Obj 1 (PInt 1)], [''id'' \<mapsto> Obj 2 (PInt 2)], [''id'' \<mapsto> Obj 3 (PInt 3)]],
      claim_handler_data = [],
      claim_data =
        [[''agent_assigned_id'' \<mapsto> Obj 11 (PInt 1),
          ''estimate_cost'' \<mapsto> Obj 12 (PFloat (json_float 2.675))],
         [''agent_assigned_id'' \<mapsto> Obj 13 (PInt 2),
          ''estimate_cost'' \<mapsto> Obj 14 (PFloat (json_float 0.125))],
         [''agent_assigned_id'' \<mapsto> Obj 15 (PInt 3),
          ''estimate_cost'' \<mapsto> Obj 16 (PFloat (json_float 0.375))]],
      disaster_data = []\<rparr>"

text \<open>Two claims that name the missing agent 99.\<close>

definition dangling_twice_tool :: SimpleDataTool where
  "dangling_twice_tool =
     \<lparr>agent_data = [[''id'' \<mapsto> Obj 1 (PInt 1)]],
      claim_handler_data = [],
      claim_data =
        [[''agent_assigned_id'' \<mapsto> Obj 11 (PInt 99),
          ''estimate_cost'' \<mapsto> Obj 12 (PFloat (json_float 10.0))],
         [''agent_assigned_id'' \<mapsto> Obj 13 (PInt 99),
          ''estimate_cost'' \<mapsto> Obj 14 (PFloat (json_float 20.0))]],
      disaster_data = []\<rparr>"

text \<open>Agent 1 with a claim whose cost is \<^verbatim>\<open>null\<close>, then a claim with a cost.\<close>

definition null_then_cost_tool :: SimpleDataTool where
  "null_then_cost_tool =
     \<lparr>agent_data = [[''id'' \<mapsto> Obj 1 (PInt 1)]],
      claim_handler_data = [],
      claim_data =
        [[''agent_assigned_id'' \<mapsto> Obj 11 (PInt 1), ''estimate_cost'' \<mapsto> Obj 12 PNone,
          ''disaster_id'' \<mapsto> Obj 15 (PInt 1)],
         [''agent_assigned_id'' \<mapsto> Obj 13 (PInt 1),
          ''estimate_cost'' \<mapsto> Obj 14 (PFloat (json_float 5.0)),
          ''disaster_id'' \<mapsto> Obj 16 (PInt 1)]],
      disaster_data = []\<rparr>"

text \<open>
  One open claim of severity 5 for agent 1000 and one for agent 7; each int of the data
  is an object of its own.
\<close>

definition big_id_tool :: SimpleDataTool where
  "big_id_tool =
     \<lparr>agent_data = [[''id'' \<mapsto> Obj 1 (PInt 7)], [''id'' \<mapsto> Obj 2 (PInt 1000)]],
      claim_handler_data = [],
      claim_data =
        [[''agent_assigned_id'' \<mapsto> Obj 11 (PInt 1000), ''severity_rating'' \<mapsto> Obj 12 (PInt 5),
          ''status'' \<mapsto> Obj 13 (PStr ''Open'')],
         [''agent_assigned_id'' \<mapsto> Obj 14 (PInt 7), ''severity_rating'' \<mapsto> Obj 15 (PInt 5),
          ''status'' \<mapsto> Obj 16 (PStr ''Open'')]],
      disaster_data = []\<rparr>"

text \<open>A small data set with every field of the data model.\<close>

definition sample_tool :: SimpleDataTool where
  "sample_tool =
     \<lparr>agent_data =
        [[''id'' \<mapsto> Obj 1 (PInt 1), ''state'' \<mapsto> Obj 2 (PStr ''Ohio''),
          ''secondary_language'' \<mapsto> Obj 3 (PStr ''Spanish'')],
         [''id'' \<mapsto> Obj 4 (PInt 2), ''state'' \<mapsto> Obj 5 (PStr ''Texas''),
          ''secondary_language'' \<mapsto> Obj 6 (PStr ''French'')]],
      claim_handler_data = [[''id'' \<mapsto> Obj 7 (PInt 10)]],
      claim_data =
        [[''id'' \<mapsto> Obj 11 (PInt 100), ''disaster_id'' \<mapsto> Obj 12 (PInt 1),
          ''claim_handler_assigned_id'' \<mapsto> Obj 13 (PInt 10),
          ''agent_assigned_id'' \<mapsto> Obj 14 (PInt 1),
          ''estimate_cost'' \<mapsto> Obj 15 (PFloat (json_float 1200.50)),
          ''severity_rating'' \<mapsto> Obj 16 (PInt 8), ''status'' \<mapsto> Obj 17 (PStr ''Received'')],
         [''id'' \<mapsto> Obj 21 (PInt 101), ''disaster_id'' \<mapsto> Obj 22 (PInt 2),
          ''claim_handler_assigned_id'' \<mapsto> Obj 23 (PInt 10),
          ''agent_assigned_id'' \<mapsto> Obj 24 (PInt 1),
          ''estimate_cost'' \<mapsto> Obj 25 (PFloat (json_float 300.25)),
          ''severity_rating'' \<mapsto> Obj 26 (PInt 3), ''status'' \<mapsto> Obj 27 (PStr ''Closed'')]],
      disaster_data =
        [[''id'' \<mapsto> Obj 31 (PInt 1), ''state'' \<mapsto> Obj 32 (PStr ''Texas''),
          ''declared_date'' \<mapsto> Obj 33 (PStr ''2023-01-10''),
          ''end_date'' \<mapsto> Obj 34 (PStr ''2023-01-05'')],
         [''id'' \<mapsto> Obj 35 (PInt 2), ''state'' \<mapsto> Obj 36 (PStr ''Ohio''),
          ''declared_date'' \<mapsto> Obj 37 (PStr ''2023-02-01''),
          ''end_date'' \<mapsto> Obj 38 (PStr ''2023-02-20'')]]\<rparr>"

section \<open>Rounding\<close>

lemma floor_rat_numeral [simp]: "\<lfloor>numeral a / numeral b :: rat\<rfloor> = numeral a div numeral b"
  by (metis floor_divide_of_int_eq of_int_numeral)

lemma pow2_pos [simp]: "0 < pow2 e"
  by (simp add: pow2_def)

lemma pow2_add: "pow2 (a + b) = pow2 a * pow2 b"
  by (simp add: pow2_def power_int_add)

lemma pow2_minus: "pow2 (- a) = 1 / pow2 a"
  by (simp add: pow2_def power_int_minus_divide)

lemma pow2_nat: "0 \<le> e \<Longrightarrow> pow2 e = 2 ^ nat e"
  by (simp add: pow2_def power_int_def)

lemma pow2_mono: "a \<le> b \<Longrightarrow> pow2 a \<le> pow2 b"
  by (simp add: pow2_def power_int_increasing)

lemma binary_exponent_bounds:
  assumes "0 < a"
  shows "pow2 (binary_exponent a) \<le> a \<and> a < pow2 (binary_exponent a + 1)"
proof (cases "1 \<le> a")
  case True
  define n where "n = \<lfloor>a\<rfloor>"
  have n: "0 < n" using True by (simp add: n_def)
  define b where "b = bitlen n"
  have b1: "1 \<le> b" using n by (auto simp: b_def bitlen_alt_def)
  have bnd: "2 ^ nat (b - 1) \<le> n" "n < 2 ^ nat b"
    using bitlen_bounds [OF n] by (simp_all add: b_def)
  have "pow2 (b - 1) = of_int (2 ^ nat (b - 1))"
    using b1 by (simp add: pow2_nat)
  also have "\<dots> \<le> of_int n" using bnd(1) by (simp only: of_int_le_iff)
  also have "\<dots> \<le> a" by (simp add: n_def)
  finally have lo: "pow2 (b - 1) \<le> a" .
  have "n + 1 \<le> 2 ^ nat b" using bnd(2) by simp
  then have "(of_int (n + 1) :: rat) \<le> of_int (2 ^ nat b)" by (simp only: of_int_le_iff)
  moreover have "a < of_int (n + 1)" unfolding n_def by linarith
  moreover have "pow2 b = of_int (2 ^ nat b)" using b1 by (simp add: pow2_nat)
  ultimately have hi: "a < pow2 b" by simp
  show ?thesis using lo hi True by (simp add: binary_exponent_def n_def b_def)
next
  case False
  then have a1: "a < 1" by simp
  define c where "c = \<lceil>1 / a\<rceil>"
  have "1 < 1 / a" using assms a1 by simp
  then have c2: "2 \<le> c" unfolding c_def by (simp add: le_ceiling_iff)
  define k where "k = bitlen (c - 1)"
  have c1: "0 < c - 1" using c2 by simp
  have k1: "1 \<le> k" using c1 by (auto simp: k_def bitlen_alt_def)
  have bnd: "2 ^ nat (k - 1) \<le> c - 1" "c - 1 < 2 ^ nat k"
    using bitlen_bounds [OF c1] by (simp_all add: k_def)
  have "1 / a \<le> of_int c" by (simp add: c_def)
  also have "c \<le> 2 ^ nat k" using bnd(2) by simp
  then have "(of_int c :: rat) \<le> of_int (2 ^ nat k)" by (simp only: of_int_le_iff)
  also have "of_int (2 ^ nat k) = pow2 k" using k1 by (simp add: pow2_nat)
  finally have "1 / a \<le> pow2 k" .
  then have "1 \<le> pow2 k * a" using assms by (simp add: field_simps)
  then have lo: "pow2 (- k) \<le> a" by (simp add: pow2_minus field_simps)
  have "pow2 (k - 1) = of_int (2 ^ nat (k - 1))" using k1 by (simp add: pow2_nat)
  also have "\<dots> \<le> of_int (c - 1)" using bnd(1) by (simp only: of_int_le_iff)
  also have "\<dots> < 1 / a" unfolding c_def by linarith
  finally have "pow2 (k - 1) < 1 / a" .
  then have "pow2 (k - 1) * a < 1" using assms by (simp add: field_simps)
  then have "a < 1 / pow2 (k - 1)" by (simp add: field_simps)
  then have hi: "a < pow2 (- k + 1)" using pow2_minus [of "k - 1"] by simp
  show ?thesis using lo hi False by (simp add: binary_exponent_def c_def k_def)
qed

lemma binary_exponent_eq:
  assumes "pow2 e \<le> a" and "a < pow2 (e + 1)"
  shows "binary_exponent a = e"
proof -
  have pos: "0 < a" using assms(1) pow2_pos [of e] by linarith
  note b = binary_exponent_bounds [OF pos]
  let ?E = "binary_exponent a"
  have "\<not> e < ?E"
  proof
    assume "e < ?E"
    then have "pow2 (e + 1) \<le> pow2 ?E" by (intro pow2_mono) simp
    then show False using b assms by linarith
  qed
  moreover have "\<not> ?E < e"
  proof
    assume "?E < e"
    then have "pow2 (?E + 1) \<le> pow2 e" by (intro pow2_mono) simp
    then show False using b assms by linarith
  qed
  ultimately show ?thesis by simp
qed

text \<open>How \<open>round_double\<close> evaluates once the binary exponent of its argument is known.\<close>

lemma round_double_at:
  assumes "pow2 e \<le> \<bar>r\<bar>" and "\<bar>r\<bar> < pow2 (e + 1)"
  shows "round_double neg r =
     (let q = pow2 (max e (- 1022) - 52);
          m = round_half_even (\<bar>r\<bar> / q);
          a = of_int m * q
      in if pow2 1024 \<le> a then (if r < 0 then NegInf else PosInf)
         else if m = 0 then (if r < 0 then NegZero else Fin 0)
         else Fin (if r < 0 then - a else a))"
proof -
  have "r \<noteq> 0" using assms(1) pow2_pos [of e] by (cases "r = 0") (simp_all add: not_le)
  then show ?thesis
    by (simp add: round_double_def binary_exponent_eq [OF assms])
qed

lemma round_half_even_of_int [simp]: "round_half_even (of_int i) = i"
  by (simp add: round_half_even_def)

lemma round_half_even_cases:
  obtains f where "of_int f \<le> x" and "x < of_int f + 1"
    and "round_half_even x =
           (if x - of_int f < 1 / 2 then f else if 1 / 2 < x - of_int f then f + 1
            else if even f then f else f + 1)"
proof -
  have "of_int \<lfloor>x\<rfloor> \<le> x" "x < of_int \<lfloor>x\<rfloor> + 1" by linarith+
  moreover have "round_half_even x =
           (if x - of_int \<lfloor>x\<rfloor> < 1 / 2 then \<lfloor>x\<rfloor> else if 1 / 2 < x - of_int \<lfloor>x\<rfloor> then \<lfloor>x\<rfloor> + 1
            else if even \<lfloor>x\<rfloor> then \<lfloor>x\<rfloor> else \<lfloor>x\<rfloor> + 1)"
    by (simp add: round_half_even_def Let_def)
  ultimately show ?thesis using that by blast
qed

lemma round_half_even_near: "\<bar>x - of_int (round_half_even x)\<bar> \<le> 1 / 2"
proof -
  obtain f where "of_int f \<le> x" "x < of_int f + 1"
    "round_half_even x =
           (if x - of_int f < 1 / 2 then f else if 1 / 2 < x - of_int f then f + 1
            else if even f then f else f + 1)"
    by (rule round_half_even_cases)
  then show ?thesis
    by (auto simp: abs_if split: if_splits)
qed

lemma round_half_even_tie:
  assumes "\<bar>x - of_int (round_half_even x)\<bar> = 1 / 2"
  shows "even (round_half_even x)"
proof -
  obtain f where "of_int f \<le> x" "x < of_int f + 1"
    "round_half_even x =
           (if x - of_int f < 1 / 2 then f else if 1 / 2 < x - of_int f then f + 1
            else if even f then f else f + 1)"
    by (rule round_half_even_cases)
  then show ?thesis
    using assms by (auto simp: abs_if split: if_splits)
qed

lemma round_half_even_unique:
  assumes "\<bar>x - of_int n\<bar> \<le> 1 / 2" and "\<bar>x - of_int n\<bar> = 1 / 2 \<longrightarrow> even n"
  shows "n = round_half_even x"
proof -
  let ?m = "round_half_even x"
  have m: "\<bar>x - of_int ?m\<bar> \<le> 1 / 2" by (rule round_half_even_near)
  have "\<bar>(of_int n :: rat) - of_int ?m\<bar> \<le> 1" using assms(1) m by linarith
  then have "\<bar>(of_int (n - ?m) :: rat)\<bar> \<le> 1" by simp
  then have d: "\<bar>n - ?m\<bar> \<le> 1"
    by (metis of_int_abs of_int_le_1_iff)
  show ?thesis
  proof (rule ccontr)
    assume ne: "n \<noteq> ?m"
    then have dd: "n = ?m + 1 \<or> n = ?m - 1" using d by linarith
    then have tie: "\<bar>x - of_int n\<bar> = 1 / 2 \<and> \<bar>x - of_int ?m\<bar> = 1 / 2"
      using assms(1) m by (auto simp: abs_if split: if_splits)
    then have "even n" "even ?m"
      using assms(2) round_half_even_tie by blast+
    then show False using dd by auto
  qed
qed

lemma hundredths_iff: "hundredths x n \<longleftrightarrow> n = round_half_even (x * 100)"
  using round_half_even_unique [of "x * 100" n] round_half_even_near [of "x * 100"]
    round_half_even_tie [of "x * 100"]
  by (auto simp: hundredths_def)

lemma round_half_even_le:
  assumes "x \<le> of_int N"
  shows "round_half_even x \<le> N"
proof -
  obtain f where f: "of_int f \<le> x" "x < of_int f + 1"
    "round_half_even x =
           (if x - of_int f < 1 / 2 then f else if 1 / 2 < x - of_int f then f + 1
            else if even f then f else f + 1)"
    by (rule round_half_even_cases)
  have "(of_int f :: rat) \<le> of_int N" using f(1) assms by linarith
  then have fN: "f \<le> N" by (simp only: of_int_le_iff)
  show ?thesis
  proof (cases "f = N")
    case True
    then have "x = of_int f" using f(1) assms by simp
    then show ?thesis using f(3) True by simp
  next
    case False
    then have "f + 1 \<le> N" using fN by simp
    then show ?thesis using f(3) fN by (auto split: if_splits)
  qed
qed

lemma round_half_even_nonneg:
  assumes "0 \<le> x"
  shows "0 \<le> round_half_even x"
proof -
  have "0 \<le> \<lfloor>x\<rfloor>" using assms by simp
  then show ?thesis by (auto simp: round_half_even_def Let_def)
qed

lemma pow2_53: "pow2 53 = of_int (2 ^ 53)"
  by (simp add: pow2_def)

lemma round_double_finite:
  assumes "\<bar>r\<bar> < pow2 1023"
  shows "is_finite (round_double neg r)"
proof (cases "r = 0")
  case True
  then show ?thesis by (simp add: round_double_def)
next
  case False
  define E where "E = binary_exponent \<bar>r\<bar>"
  define E' where "E' = max E (- 1022)"
  define q where "q = pow2 (E' - 52)"
  define m where "m = round_half_even (\<bar>r\<bar> / q)"
  have pos: "0 < \<bar>r\<bar>" using False by simp
  have b: "pow2 E \<le> \<bar>r\<bar>" "\<bar>r\<bar> < pow2 (E + 1)"
    using binary_exponent_bounds [OF pos] by (simp_all add: E_def)
  have "\<not> 1023 \<le> E"
  proof
    assume "1023 \<le> E"
    then have "pow2 1023 \<le> pow2 E" by (rule pow2_mono)
    then show False using b(1) assms by linarith
  qed
  then have E': "E' \<le> 1022" "E \<le> E'" by (simp_all add: E'_def)
  have q: "0 < q" by (simp add: q_def)
  have split: "pow2 (E' + 1) = pow2 53 * q"
    using pow2_add [of 53 "E' - 52"] by (simp add: q_def add.commute)
  have "\<bar>r\<bar> < pow2 (E' + 1)"
    using b(2) pow2_mono [of "E + 1" "E' + 1"] E'(2) by simp
  then have "\<bar>r\<bar> / q < pow2 53"
    using q by (simp add: split field_simps)
  then have "\<bar>r\<bar> / q \<le> of_int (2 ^ 53)" by (simp add: pow2_53)
  then have "m \<le> 2 ^ 53" unfolding m_def by (rule round_half_even_le)
  then have "(of_int m :: rat) \<le> of_int (2 ^ 53)" by (simp only: of_int_le_iff)
  then have "of_int m * q \<le> pow2 53 * q"
    using q by (simp add: pow2_53)
  also have "\<dots> = pow2 (E' + 1)" by (simp add: split)
  also have "\<dots> \<le> pow2 1023" using E'(1) by (intro pow2_mono) simp
  also have "\<dots> < pow2 1024" by (simp add: pow2_def)
  finally have "\<not> pow2 1024 \<le> of_int m * q" by simp
  then show ?thesis
    using False by (simp add: round_double_def Let_def E_def E'_def q_def m_def)
qed

lemma float_of_int_small:
  assumes "\<bar>i\<bar> < 2 ^ 1023"
  shows "\<exists>x. float_of_int i = Inr x"
proof -
  have "(of_int \<bar>i\<bar> :: rat) < of_int (2 ^ 1023)" using assms by (simp only: of_int_less_iff)
  then have "\<bar>of_int i :: rat\<bar> < pow2 1023" by (simp add: pow2_def)
  then show ?thesis
    by (simp add: float_of_int_def Let_def round_double_finite)
qed

section \<open>Values and dictionaries\<close>

lemma key_eq_key: "key_eq a b \<longleftrightarrow> py_key a = py_key b"
proof (cases "py_num a")
  case None
  then show ?thesis
    by (cases a; cases "py_num b") (auto simp: key_eq_def py_eq_def py_key_def)
next
  case (Some x)
  show ?thesis
  proof (cases "py_num b")
    case None
    then show ?thesis
      using Some by (cases b) (auto simp: key_eq_def py_eq_def py_key_def)
  next
    case (Some y)
    have nan: "py_num v = Some NotANumber \<longleftrightarrow> v = PFloat NaN" for v
    proof (cases v)
      case (PFloat d)
      then show ?thesis by (cases d) simp_all
    qed simp_all
    show ?thesis
      using Some \<open>py_num a = Some x\<close> nan [of a] nan [of b]
      by (auto simp: key_eq_def py_eq_def py_key_def num_eq_def)
  qed
qed

lemma py_eq_PStr: "py_eq k (PStr s) \<longleftrightarrow> k = PStr s"
  by (cases k) (auto simp: py_eq_def)

lemma key_eq_PStr: "key_eq k (PStr s) \<longleftrightarrow> k = PStr s"
  by (auto simp: key_eq_def py_eq_PStr)

section \<open>The doubles of the examples\<close>

text \<open>The doubles that the decimal literals of the examples denote.\<close>

lemma json_float_100_005: "json_float 100.005 = Fin (879653282685911 / 8796093022208)"
  by (simp add: json_float_def round_double_at [where e = 6] pow2_def round_half_even_def
        Let_def)

lemma json_float_150_005: "json_float 150.005 = Fin (1319457933796311 / 8796093022208)"
  by (simp add: json_float_def round_double_at [where e = 7] pow2_def round_half_even_def
        Let_def)

lemma json_float_150_01: "json_float 150.01 = Fin (659750957130711 / 4398046511104)"
  by (simp add: json_float_def round_double_at [where e = 7] pow2_def round_half_even_def
        Let_def)

lemma json_float_150: "json_float 150.00 = Fin 150"
  by (simp add: json_float_def round_double_at [where e = 7] pow2_def round_half_even_def
        Let_def)

lemma json_float_50: "json_float 50.00 = Fin 50"
  by (simp add: json_float_def round_double_at [where e = 5] pow2_def round_half_even_def
        Let_def)

lemma json_float_10: "json_float 10.0 = Fin 10"
  by (simp add: json_float_def round_double_at [where e = 3] pow2_def round_half_even_def
        Let_def)

lemma json_float_20: "json_float 20.0 = Fin 20"
  by (simp add: json_float_def round_double_at [where e = 4] pow2_def round_half_even_def
        Let_def)

lemma json_float_5: "json_float 5.0 = Fin 5"
  by (simp add: json_float_def round_double_at [where e = 2] pow2_def round_half_even_def
        Let_def)

lemma json_float_0_1: "json_float 0.1 = Fin (3602879701896397 / 36028797018963968)"
  by (simp add: json_float_def round_double_at [where e = "- 4"] pow2_def round_half_even_def
        Let_def)

lemma json_float_0_2: "json_float 0.2 = Fin (3602879701896397 / 18014398509481984)"
  by (simp add: json_float_def round_double_at [where e = "- 3"] pow2_def round_half_even_def
        Let_def)

lemma json_float_minus_0_3: "json_float (- 0.3) = Fin (- (5404319552844595 / 18014398509481984))"
  by (simp add: json_float_def round_double_at [where e = "- 2"] pow2_def round_half_even_def
        Let_def)

lemma json_float_2_675: "json_float 2.675 = Fin (3011782250804019 / 1125899906842624)"
  by (simp add: json_float_def round_double_at [where e = 1] pow2_def round_half_even_def
        Let_def)

lemma json_float_2_67: "json_float 2.67 = Fin (1503076375634903 / 562949953421312)"
  by (simp add: json_float_def round_double_at [where e = 1] pow2_def round_half_even_def
        Let_def)

lemma json_float_0_125: "json_float 0.125 = Fin (1 / 8)"
  by (simp add: json_float_def round_double_at [where e = "- 3"] pow2_def round_half_even_def
        Let_def)

lemma json_float_0_12: "json_float 0.12 = Fin (1080863910568919 / 9007199254740992)"
  by (simp add: json_float_def round_double_at [where e = "- 4"] pow2_def round_half_even_def
        Let_def)

lemma json_float_0_375: "json_float 0.375 = Fin (3 / 8)"
  by (simp add: json_float_def round_double_at [where e = "- 2"] pow2_def round_half_even_def
        Let_def)

lemma json_float_0_38: "json_float 0.38 = Fin (3422735716801577 / 9007199254740992)"
  by (simp add: json_float_def round_double_at [where e = "- 2"] pow2_def round_half_even_def
        Let_def)

lemma json_float_7_5: "json_float 7.5 = Fin (15 / 2)"
  by (simp add: json_float_def round_double_at [where e = 2] pow2_def round_half_even_def
        Let_def)

lemma json_float_0_25: "json_float 0.25 = Fin (1 / 4)"
  by (simp add: json_float_def round_double_at [where e = "- 2"] pow2_def round_half_even_def
        Let_def)

lemma json_float_10_25: "json_float 10.25 = Fin (41 / 4)"
  by (simp add: json_float_def round_double_at [where e = 3] pow2_def round_half_even_def
        Let_def)

lemma json_float_1200_5: "json_float 1200.50 = Fin (2401 / 2)"
  by (simp add: json_float_def round_double_at [where e = 10] pow2_def round_half_even_def
        Let_def)

lemma json_float_300_25: "json_float 300.25 = Fin (1201 / 4)"
  by (simp add: json_float_def round_double_at [where e = 8] pow2_def round_half_even_def
        Let_def)

lemma json_float_1500_75: "json_float 1500.75 = Fin (6003 / 4)"
  by (simp add: json_float_def round_double_at [where e = 10] pow2_def round_half_even_def
        Let_def)

lemma json_float_750_38: "json_float 750.38 = Fin (6600412282004439 / 8796093022208)"
  by (simp add: json_float_def round_double_at [where e = 9] pow2_def round_half_even_def
        Let_def)

section \<open>The total claim cost of a disaster\<close>

lemma disaster_cost_loop_sum:
  assumes "\<forall>c\<in>set cs. has_key c ''disaster_id''"
      and "\<forall>c\<in>set (claims_of_disaster cs d). has_key c ''estimate_cost''"
  shows "disaster_cost_loop cs d acc = py_sum acc (disaster_costs cs d)"
  using assms
proof (induction cs arbitrary: acc)
  case Nil
  then show ?case by (simp add: disaster_costs_def claims_of_disaster_def)
next
  case (Cons c cs)
  from Cons.prems(1) obtain ob where ob: "c ''disaster_id'' = Some ob"
    by (auto simp: has_key_def)
  have rest: "\<forall>c\<in>set cs. has_key c ''disaster_id''"
    "\<forall>c\<in>set (claims_of_disaster cs d). has_key c ''estimate_cost''"
    using Cons.prems by (auto simp: claims_of_disaster_def)
  show ?case
  proof (cases "py_eq (obj_val ob) d")
    case True
    then have "has_key c ''estimate_cost''"
      using Cons.prems(2) ob by (simp add: claims_of_disaster_def py_get_def)
    then obtain co where co: "c ''estimate_cost'' = Some co"
      by (auto simp: has_key_def)
    have "disaster_costs (c # cs) d = obj_val co # disaster_costs cs d"
      using True ob co by (simp add: disaster_costs_def claims_of_disaster_def py_get_def)
    then show ?thesis
      using True ob co Cons.IH [OF rest]
      by (simp add: py_getitem_def split: sum.splits)
  next
    case False
    then have "disaster_costs (c # cs) d = disaster_costs cs d"
      using ob by (simp add: disaster_costs_def claims_of_disaster_def py_get_def)
    then show ?thesis
      using False ob Cons.IH [OF rest] by (simp add: py_getitem_def)
  qed
qed

lemma py_add_float_left: "py_add (PFloat x) v = Inr t \<Longrightarrow> \<exists>y. t = PFloat y"
  by (cases v) (auto simp: py_add_def py_float_def split: sum.splits)

lemma py_sum_float: "py_sum (PFloat x) vs = Inr t \<Longrightarrow> \<exists>y. t = PFloat y"
proof (induction vs arbitrary: x)
  case Nil
  then show ?case by auto
next
  case (Cons v vs)
  then obtain u where u: "py_add (PFloat x) v = Inr u" "py_sum u vs = Inr t"
    by (auto split: sum.splits)
  from py_add_float_left [OF u(1)] obtain y where "u = PFloat y" by blast
  then show ?case using Cons.IH u(2) by blast
qed

text \<open>On a list of floats the sum is the chain of rounded additions, and never raises.\<close>

lemma py_sum_floats: "py_sum (PFloat x) (map PFloat ys) = Inr (PFloat (foldl fadd x ys))"
  by (induction ys arbitrary: x) (simp_all add: py_add_def py_float_def)

text \<open>
  C1. When every claim has a \<^verbatim>\<open>disaster_id\<close> and every claim of the disaster asked for
  has an \<^verbatim>\<open>estimate_cost\<close>: if the costs of the disaster's claims, added in scan order
  from 0.0, have a sum, then the method returns \<^verbatim>\<open>None\<close> if and only if that sum is
  zero, and otherwise it returns that sum, as it stands; if an addition raises, the method
  raises the same; and with no claim of the disaster it returns \<^verbatim>\<open>None\<close>. The sum is
  Python's: every addition of floats is rounded.
\<close>

theorem total_claim_cost_none_iff_zero_sum:
  assumes "\<forall>c\<in>set (claim_data self). has_key c ''disaster_id''"
      and "\<forall>c\<in>set (claims_of_disaster (claim_data self) d). has_key c ''estimate_cost''"
  shows "(\<forall>s. py_sum (PFloat (Fin 0)) (disaster_costs (claim_data self) d) = Inr s \<longrightarrow>
            (get_total_claim_cost_for_disaster self d = Inr PNone
               \<longleftrightarrow> py_eq s (PFloat (Fin 0)))
            \<and> (\<not> py_eq s (PFloat (Fin 0)) \<longrightarrow>
                  get_total_claim_cost_for_disaster self d = Inr s))
       \<and> (\<forall>e. py_sum (PFloat (Fin 0)) (disaster_costs (claim_data self) d) = Inl e \<longrightarrow>
            get_total_claim_cost_for_disaster self d = Inl e)
       \<and> (claims_of_disaster (claim_data self) d = [] \<longrightarrow>
            get_total_claim_cost_for_disaster self d = Inr PNone)"
proof -
  have loop: "disaster_cost_loop (claim_data self) d (PFloat (Fin 0))
                = py_sum (PFloat (Fin 0)) (disaster_costs (claim_data self) d)"
    by (rule disaster_cost_loop_sum [OF assms])
  have "(get_total_claim_cost_for_disaster self d = Inr PNone \<longleftrightarrow> py_eq s (PFloat (Fin 0)))
        \<and> (\<not> py_eq s (PFloat (Fin 0)) \<longrightarrow> get_total_claim_cost_for_disaster self d = Inr s)"
    if s: "py_sum (PFloat (Fin 0)) (disaster_costs (claim_data self) d) = Inr s" for s
  proof -
    from py_sum_float [OF s] obtain y where "s = PFloat y" by blast
    then show ?thesis
      by (simp add: get_total_claim_cost_for_disaster_def loop s)
  qed
  moreover have "get_total_claim_cost_for_disaster self d = Inl e"
    if "py_sum (PFloat (Fin 0)) (disaster_costs (claim_data self) d) = Inl e" for e
    using that by (simp add: get_total_claim_cost_for_disaster_def loop)
  moreover have "get_total_claim_cost_for_disaster self d = Inr PNone"
    if "claims_of_disaster (claim_data self) d = []"
    using that
    by (simp add: get_total_claim_cost_for_disaster_def loop disaster_costs_def py_eq_def
          num_eq_def)
  ultimately show ?thesis by blast
qed

text \<open>
  0.1 + 0.2 - 0.3, added from 0.0 in this order, is \<open>2 ^ -54\<close> in doubles (about
  5.55e-17), and 1e16 + 1.0 - 1e16 is 0.0: the 1.0 is lost in the first addition.
\<close>

lemma drift_sum_1:
  "foldl fadd (Fin 0)
     [Fin (3602879701896397 / 36028797018963968), Fin (3602879701896397 / 18014398509481984),
      Fin (- (5404319552844595 / 18014398509481984))]
   = Fin (1 / 18014398509481984)"
  by (simp add: fadd_def round_double_at [where e = "- 4"] round_double_at [where e = "- 2"]
        round_double_at [where e = "- 54"] pow2_def round_half_even_def Let_def)

lemma drift_sum_2: "foldl fadd (Fin 0) [Fin (10 ^ 16), Fin 1, Fin (- (10 ^ 16))] = Fin 0"
  by (simp add: fadd_def round_double_at [where e = 53] round_double_def [of _ 0] pow2_def
        round_half_even_def Let_def)

lemma py_add_huge: "py_add (PFloat (Fin 0)) (PInt (10 ^ 400)) = Inl OverflowError"
  by (simp add: py_add_def py_float_def float_of_int_def round_double_at [where e = 1328]
        pow2_def round_half_even_def Let_def)

theorem total_claim_cost_none_iff_zero_sum_witness:
  "get_total_claim_cost_for_disaster drift_tool (PInt 1)
     = Inr (PFloat (Fin (1 / 18014398509481984)))
   \<and> get_total_claim_cost_for_disaster drift_tool (PInt 2) = Inr PNone
   \<and> get_total_claim_cost_for_disaster drift_tool (PInt 3) = Inl OverflowError
   \<and> get_total_claim_cost_for_disaster drift_tool (PInt 7) = Inr PNone"
proof -
  have h1: "\<forall>c\<in>set (claim_data drift_tool). has_key c ''disaster_id''"
    by (simp add: drift_tool_def has_key_def)
  have h2: "\<forall>c\<in>set (claims_of_disaster (claim_data drift_tool) d). has_key c ''estimate_cost''"
    for d
    by (simp add: drift_tool_def has_key_def claims_of_disaster_def)
  have c1: "disaster_costs (claim_data drift_tool) (PInt 1)
      = map PFloat [Fin (3602879701896397 / 36028797018963968),
          Fin (3602879701896397 / 18014398509481984),
          Fin (- (5404319552844595 / 18014398509481984))]"
    unfolding drift_tool_def json_float_0_1 json_float_0_2 json_float_minus_0_3
    by (simp add: disaster_costs_def claims_of_disaster_def py_get_def py_eq_def num_eq_def)
  have c2: "disaster_costs (claim_data drift_tool) (PInt 2)
      = map PFloat [Fin (10 ^ 16), Fin 1, Fin (- (10 ^ 16))]"
    by (simp add: drift_tool_def disaster_costs_def claims_of_disaster_def py_get_def py_eq_def
          num_eq_def)
  have c3: "disaster_costs (claim_data drift_tool) (PInt 3) = [PInt (10 ^ 400)]"
    by (simp add: drift_tool_def disaster_costs_def claims_of_disaster_def py_get_def py_eq_def
          num_eq_def)
  have c7: "claims_of_disaster (claim_data drift_tool) (PInt 7) = []"
    by (simp add: drift_tool_def claims_of_disaster_def py_get_def py_eq_def num_eq_def)
  have s1: "py_sum (PFloat (Fin 0)) (disaster_costs (claim_data drift_tool) (PInt 1))
      = Inr (PFloat (Fin (1 / 18014398509481984)))"
    unfolding c1 py_sum_floats drift_sum_1 by (rule refl)
  have s2: "py_sum (PFloat (Fin 0)) (disaster_costs (claim_data drift_tool) (PInt 2))
      = Inr (PFloat (Fin 0))"
    unfolding c2 py_sum_floats drift_sum_2 by (rule refl)
  have s3: "py_sum (PFloat (Fin 0)) (disaster_costs (claim_data drift_tool) (PInt 3))
      = Inl OverflowError"
    unfolding c3 py_sum.simps py_add_huge by simp
  show ?thesis
    using total_claim_cost_none_iff_zero_sum [OF h1 h2, of "PInt 1"]
      total_claim_cost_none_iff_zero_sum [OF h1 h2, of "PInt 2"]
      total_claim_cost_none_iff_zero_sum [OF h1 h2, of "PInt 3"]
      total_claim_cost_none_iff_zero_sum [OF h1 h2, of "PInt 7"]
      s1 s2 s3 c7
    by (simp add: py_eq_def num_eq_def)
qed

lemma fadd_100_005_50:
  "fadd (Fin (879653282685911 / 8796093022208)) (Fin 50) = Fin (1319457933796311 / 8796093022208)"
  by (simp add: fadd_def round_double_at [where e = 7] pow2_def round_half_even_def Let_def)

lemma fadd_zero_left: "fadd (Fin 0) (Fin (879653282685911 / 8796093022208)) = Fin (879653282685911 / 8796093022208)"
  by (simp add: fadd_def round_double_at [where e = 6] pow2_def round_half_even_def Let_def)

lemma fround2_150_005: "fround2 (Fin (1319457933796311 / 8796093022208)) = Fin 150"
  by (simp add: fround2_def round_double_at [where e = 7] pow2_def round_half_even_def Let_def)

text \<open>
  C2. The specification's scenario: two claims on disaster 1 with costs 100.005 and
  50.00. The method returns the double 150.005, the sum as it stands; \<^verbatim>\<open>round\<close> would
  make 150.00 of it, round-half-up of the decimal sum would give 150.01, and the returned
  value is neither.
\<close>

theorem total_claim_cost_is_not_rounded:
  "get_total_claim_cost_for_disaster rounding_tool (PInt 1) = Inr (PFloat (json_float 150.005))
   \<and> py_round2 (PFloat (json_float 150.005)) = Inr (PFloat (json_float 150.00))
   \<and> get_total_claim_cost_for_disaster rounding_tool (PInt 1) \<noteq> Inr (PFloat (json_float 150.00))
   \<and> get_total_claim_cost_for_disaster rounding_tool (PInt 1) \<noteq> Inr (PFloat (json_float 150.01))"
  unfolding rounding_tool_def json_float_100_005 json_float_150_005 json_float_150_01
    json_float_150 json_float_50
  by (simp add: get_total_claim_cost_for_disaster_def py_getitem_def py_eq_def num_eq_def
        py_add_def py_float_def py_round2_def fadd_zero_left fadd_100_005_50 fround2_150_005)

section \<open>The state queries on an empty disaster list\<close>

text \<open>
  C10. With no disaster record loaded the grouping dictionary stays empty, and
  \<^verbatim>\<open>max\<close> (in the most-disasters query) and \<^verbatim>\<open>min\<close> (in the least-disasters query) of
  its values raise \<^verbatim>\<open>ValueError\<close>: neither method returns a value, whatever the other
  three lists hold.
\<close>

theorem state_queries_raise_without_disasters:
  "get_state_with_most_disasters (self\<lparr>disaster_data := []\<rparr>) = Inl ValueError
   \<and> get_state_with_least_disasters (self\<lparr>disaster_data := []\<rparr>) = Inl ValueError"
  by (simp add: get_state_with_most_disasters_def get_state_with_least_disasters_def)

section \<open>The grouping loops\<close>

lemma dict_contains_PStr: "dict_contains d (PStr s) \<longleftrightarrow> map_of d (PStr s) \<noteq> None"
  by (induction d) (auto simp: key_eq_PStr)

lemma dict_lookup_PStr:
  "dict_lookup d (PStr s) = (case map_of d (PStr s) of None \<Rightarrow> Inl KeyError | Some v \<Rightarrow> Inr v)"
  by (induction d) (auto simp: key_eq_PStr)

lemma dict_store_PStr: "dict_store d (PStr s) v = AList.update (PStr s) v d"
  by (induction d) (auto simp: key_eq_PStr)

lemma str_fieldD:
  "str_field r k \<Longrightarrow> \<exists>ob. r k = Some ob \<and> obj_val ob = PStr (field_str r k)"
  by (cases "r k") (auto simp: str_field_def field_str_def py_get_def split: pyval.splits)

lemma state_count_loop_tally:
  assumes "\<forall>r\<in>set ds. str_field r ''state''"
  shows "state_count_loop ds d = Inr (tally (map PStr (state_names ds)) d)"
  using assms
proof (induction ds arbitrary: d)
  case Nil
  then show ?case by (simp add: state_names_def)
next
  case (Cons r ds)
  define s where "s = field_str r ''state''"
  have "str_field r ''state''"
    using Cons.prems by simp
  then obtain ob where r: "r ''state'' = Some ob" and ob: "obj_val ob = PStr s"
    unfolding s_def by (blast dest: str_fieldD)
  have names: "state_names (r # ds) = s # state_names ds"
    by (simp add: state_names_def s_def)
  have IH: "state_count_loop ds d' = Inr (tally (map PStr (state_names ds)) d')" for d'
    using Cons.IH Cons.prems by simp
  have get: "py_getitem r ''state'' = Inr ob"
    by (simp add: py_getitem_def r)
  show ?case
  proof (cases "map_of d (PStr s)")
    case None
    then show ?thesis
      unfolding names
      by (simp add: get ob IH dict_contains_PStr dict_store_PStr)
  next
    case (Some c)
    then show ?thesis
      unfolding names
      by (simp add: get ob IH dict_contains_PStr dict_lookup_PStr dict_store_PStr)
  qed
qed

lemma map_of_tally:
  "map_of (tally ks d) k =
     (if k \<in> set ks \<or> map_of d k \<noteq> None
      then Some (int (count_list ks k) + (case map_of d k of Some c \<Rightarrow> c | None \<Rightarrow> 0))
      else None)"
proof (induction ks arbitrary: d)
  case Nil
  then show ?case
    by (auto split: option.splits)
next
  case (Cons a ks)
  show ?case
    by (auto simp: Cons.IH update_conv' split: option.splits)
qed

lemma distinct_tally: "distinct (map fst d) \<Longrightarrow> distinct (map fst (tally ks d))"
  by (induction ks arbitrary: d) (auto simp: distinct_update)

lemma find_keys_tally:
  "find P (map fst (tally ks d)) =
     (case find P (map fst d) of Some k \<Rightarrow> Some k | None \<Rightarrow> find P ks)"
proof (induction ks arbitrary: d)
  case Nil
  then show ?case by (simp split: option.splits)
next
  case (Cons a ks)
  show ?case
  proof (cases "a \<in> set (map fst d)")
    case True
    then have "find P (map fst d) = None \<Longrightarrow> \<not> P a"
      by (auto simp: find_None_iff)
    then show ?thesis
      using True by (auto simp: Cons.IH update_keys split: option.splits)
  next
    case False
    have "find P (xs @ [a]) = (case find P xs of Some k \<Rightarrow> Some k | None \<Rightarrow> if P a then Some a else None)" for xs
      by (induction xs) auto
    then show ?thesis
      using False by (auto simp: Cons.IH update_keys split: option.splits)
  qed
qed

lemma tally_empty_set:
  "set (tally ks []) = (\<lambda>k. (k, int (count_list ks k))) ` set ks"
proof -
  have dist: "distinct (map fst (tally ks ([] :: ('a \<times> int) list)))"
    by (rule distinct_tally) simp
  have "(k, v) \<in> set (tally ks []) \<longleftrightarrow> k \<in> set ks \<and> v = int (count_list ks k)" for k v
    using map_of_eq_Some_iff [OF dist, of k v] by (auto simp: map_of_tally split: if_splits)
  then show ?thesis by auto
qed

lemma tally_max_keys:
  assumes "ks \<noteq> []"
  shows "set (map fst (filter (\<lambda>kv. snd kv = Max (set (map snd (tally ks [])))) (tally ks [])))
         = {k \<in> set ks. \<forall>t\<in>set ks. count_list ks t \<le> count_list ks k}"
proof -
  let ?f = "\<lambda>k. int (count_list ks k)"
  let ?m = "Max (?f ` set ks)"
  have vals: "set (map snd (tally ks [])) = ?f ` set ks"
    by (auto simp: tally_empty_set image_iff)
  have fin: "finite (?f ` set ks)" and ne: "?f ` set ks \<noteq> {}"
    using assms by auto
  have ge: "?f t \<le> ?m" if "t \<in> set ks" for t
    using that fin by simp
  obtain t0 where t0: "t0 \<in> set ks" "?f t0 = ?m"
    using Max_in [OF fin ne] by auto
  have iff: "?f k = ?m \<longleftrightarrow> (\<forall>t\<in>set ks. count_list ks t \<le> count_list ks k)"
    if "k \<in> set ks" for k
  proof
    assume e: "?f k = ?m"
    show "\<forall>t\<in>set ks. count_list ks t \<le> count_list ks k"
    proof
      fix t assume "t \<in> set ks"
      then have "?f t \<le> ?m" by (rule ge)
      with e show "count_list ks t \<le> count_list ks k" by linarith
    qed
  next
    assume a: "\<forall>t\<in>set ks. count_list ks t \<le> count_list ks k"
    then have "count_list ks t0 \<le> count_list ks k" using t0(1) by blast
    with t0(2) have "?m \<le> ?f k" by linarith
    then show "?f k = ?m" using ge [OF that] by linarith
  qed
  have "set (map fst (filter (\<lambda>kv. snd kv = ?m) (tally ks []))) = {k \<in> set ks. ?f k = ?m}"
    by (auto simp: tally_empty_set image_iff)
  then show ?thesis
    unfolding vals using iff by auto
qed

lemma tally_min_keys:
  assumes "ks \<noteq> []"
  shows "set (map fst (filter (\<lambda>kv. snd kv = Min (set (map snd (tally ks [])))) (tally ks [])))
         = {k \<in> set ks. \<forall>t\<in>set ks. count_list ks k \<le> count_list ks t}"
proof -
  let ?f = "\<lambda>k. int (count_list ks k)"
  let ?m = "Min (?f ` set ks)"
  have vals: "set (map snd (tally ks [])) = ?f ` set ks"
    by (auto simp: tally_empty_set image_iff)
  have fin: "finite (?f ` set ks)" and ne: "?f ` set ks \<noteq> {}"
    using assms by auto
  have le: "?m \<le> ?f t" if "t \<in> set ks" for t
    using that fin by simp
  obtain t0 where t0: "t0 \<in> set ks" "?f t0 = ?m"
    using Min_in [OF fin ne] by auto
  have iff: "?f k = ?m \<longleftrightarrow> (\<forall>t\<in>set ks. count_list ks k \<le> count_list ks t)"
    if "k \<in> set ks" for k
  proof
    assume e: "?f k = ?m"
    show "\<forall>t\<in>set ks. count_list ks k \<le> count_list ks t"
    proof
      fix t assume "t \<in> set ks"
      then have "?m \<le> ?f t" by (rule le)
      with e show "count_list ks k \<le> count_list ks t" by linarith
    qed
  next
    assume a: "\<forall>t\<in>set ks. count_list ks k \<le> count_list ks t"
    then have "count_list ks k \<le> count_list ks t0" using t0(1) by blast
    with t0(2) have "?f k \<le> ?m" by linarith
    then show "?f k = ?m" using le [OF that] by linarith
  qed
  have "set (map fst (filter (\<lambda>kv. snd kv = ?m) (tally ks []))) = {k \<in> set ks. ?f k = ?m}"
    by (auto simp: tally_empty_set image_iff)
  then show ?thesis
    unfolding vals using iff by auto
qed

lemma tally_nonempty: "ks \<noteq> [] \<Longrightarrow> tally ks [] \<noteq> []"
  using tally_empty_set [of ks] by (cases "tally ks []") auto

lemma py_max_Max: "xs \<noteq> [] \<Longrightarrow> py_max xs = Inr (Max (set xs))"
  by (cases xs) (simp_all flip: Max.set_eq_fold)

lemma py_min_Min: "xs \<noteq> [] \<Longrightarrow> py_min xs = Inr (Min (set xs))"
  by (cases xs) (simp_all flip: Min.set_eq_fold)

lemma py_insert_PStr: "py_insert (PStr x) (map PStr ys) = Inr (map PStr (insort x ys))"
  by (induction ys) (auto simp: py_lt_def)

lemma py_sorted_PStr: "py_sorted (map PStr xs) = Inr (map PStr (sort xs))"
  by (induction xs) (simp_all add: py_insert_PStr)

lemma hd_sort_least:
  assumes "xs \<noteq> []"
  shows "hd (sort xs) \<in> set xs \<and> (\<forall>t\<in>set xs. hd (sort xs) \<le> t)"
proof -
  have ne: "sort xs \<noteq> []" using assms by (metis length_0_conv length_sort)
  then obtain y ys where ys: "sort xs = y # ys" by (cases "sort xs") auto
  have "sorted (y # ys)" "set (y # ys) = set xs"
    using ys [symmetric] by simp_all
  then show ?thesis
    unfolding ys by auto
qed

lemma count_list_PStr: "count_list (map PStr xs) (PStr s) = count_list xs s"
  by (induction xs) simp_all

lemma most_frequent_PStr:
  "(PStr s \<in> {k \<in> set (map PStr xs). \<forall>t\<in>set (map PStr xs).
        count_list (map PStr xs) t \<le> count_list (map PStr xs) k})
   \<longleftrightarrow> is_most_frequent xs s"
  by (auto simp: is_most_frequent_def count_list_PStr)

lemma least_frequent_PStr:
  "(PStr s \<in> {k \<in> set (map PStr xs). \<forall>t\<in>set (map PStr xs).
        count_list (map PStr xs) k \<le> count_list (map PStr xs) t})
   \<longleftrightarrow> is_least_frequent xs s"
  by (auto simp: is_least_frequent_def count_list_PStr)

lemma sorted_first_PStr:
  assumes "fk \<noteq> []" and "\<forall>k\<in>set fk. \<exists>s. k = PStr s"
  shows "\<exists>s. (case py_sorted fk of Inl e \<Rightarrow> Inl e | Inr ys \<Rightarrow> py_first ys) = Inr (PStr s)
            \<and> PStr s \<in> set fk \<and> (\<forall>t. PStr t \<in> set fk \<longrightarrow> s \<le> t)"
proof -
  obtain xs where xs: "fk = map PStr xs"
    using assms(2) ex_map_conv [of fk PStr] by blast
  then have ne: "xs \<noteq> []" using assms(1) by auto
  then obtain y ys where ys: "sort xs = y # ys"
    by (cases "sort xs") (auto dest: arg_cong [where f = length])
  have least: "y \<in> set xs \<and> (\<forall>t\<in>set xs. y \<le> t)"
    using hd_sort_least [OF ne] by (simp add: ys)
  have "(case py_sorted fk of Inl e \<Rightarrow> Inl e | Inr ys \<Rightarrow> py_first ys) = Inr (PStr y)"
    by (simp add: xs py_sorted_PStr ys)
  then show ?thesis
    using least by (auto simp: xs)
qed

lemma max_keys_nonempty:
  assumes "ks \<noteq> []"
  shows "map fst (filter (\<lambda>kv. snd kv = Max (set (map snd (tally ks [])))) (tally ks [])) \<noteq> []"
proof -
  let ?d = "tally ks ([] :: ('a \<times> int) list)"
  have "set (map snd ?d) \<noteq> {}" using tally_nonempty [OF assms] by simp
  then have "Max (set (map snd ?d)) \<in> set (map snd ?d)"
    by (intro Max_in) simp_all
  then show ?thesis
    by (fastforce simp: filter_empty_conv)
qed

lemma min_keys_nonempty:
  assumes "ks \<noteq> []"
  shows "map fst (filter (\<lambda>kv. snd kv = Min (set (map snd (tally ks [])))) (tally ks [])) \<noteq> []"
proof -
  let ?d = "tally ks ([] :: ('a \<times> int) list)"
  have "set (map snd ?d) \<noteq> {}" using tally_nonempty [OF assms] by simp
  then have "Min (set (map snd ?d)) \<in> set (map snd ?d)"
    by (intro Min_in) simp_all
  then show ?thesis
    by (fastforce simp: filter_empty_conv)
qed

section \<open>The states with the most and the fewest disasters\<close>

text \<open>
  C7. When at least one disaster is loaded and every disaster names its state by a
  string, the most-disasters query returns a state whose number of disasters is maximal
  and which is alphabetically first among the states with that maximal number; the
  least-disasters query returns the alphabetically first among the states whose number
  of disasters is minimal.
\<close>

theorem state_with_most_and_least_disasters:
  assumes "disaster_data self \<noteq> []"
      and "\<forall>r\<in>set (disaster_data self). str_field r ''state''"
  shows "(\<exists>s. get_state_with_most_disasters self = Inr (PStr s)
            \<and> is_most_frequent (state_names (disaster_data self)) s
            \<and> (\<forall>t. is_most_frequent (state_names (disaster_data self)) t \<longrightarrow> s \<le> t))
       \<and> (\<exists>s. get_state_with_least_disasters self = Inr (PStr s)
            \<and> is_least_frequent (state_names (disaster_data self)) s
            \<and> (\<forall>t. is_least_frequent (state_names (disaster_data self)) t \<longrightarrow> s \<le> t))"
proof -
  let ?names = "state_names (disaster_data self)"
  let ?ks = "map PStr ?names"
  let ?d = "tally ?ks []"
  have ne: "?ks \<noteq> []" using assms(1) by (simp add: state_names_def)
  have loop: "state_count_loop (disaster_data self) [] = Inr ?d"
    by (rule state_count_loop_tally [OF assms(2)])
  have dne: "map snd ?d \<noteq> []" using tally_nonempty [OF ne] by simp
  let ?mx = "map fst (filter (\<lambda>kv. snd kv = Max (set (map snd ?d))) ?d)"
  let ?mn = "map fst (filter (\<lambda>kv. snd kv = Min (set (map snd ?d))) ?d)"
  have mx_set: "set ?mx = {k \<in> set ?ks. \<forall>t\<in>set ?ks. count_list ?ks t \<le> count_list ?ks k}"
    by (rule tally_max_keys [OF ne])
  have mn_set: "set ?mn = {k \<in> set ?ks. \<forall>t\<in>set ?ks. count_list ?ks k \<le> count_list ?ks t}"
    by (rule tally_min_keys [OF ne])
  have mx_str: "\<forall>k\<in>set ?mx. \<exists>s. k = PStr s" unfolding mx_set by auto
  have mn_str: "\<forall>k\<in>set ?mn. \<exists>s. k = PStr s" unfolding mn_set by auto
  have most: "get_state_with_most_disasters self
                = (case py_sorted ?mx of Inl e \<Rightarrow> Inl e | Inr ys \<Rightarrow> py_first ys)"
    by (simp add: get_state_with_most_disasters_def loop py_max_Max [OF dne])
  have least: "get_state_with_least_disasters self
                = (case py_sorted ?mn of Inl e \<Rightarrow> Inl e | Inr ys \<Rightarrow> py_first ys)"
    by (simp add: get_state_with_least_disasters_def loop py_min_Min [OF dne])
  have "\<exists>s. get_state_with_most_disasters self = Inr (PStr s)
            \<and> is_most_frequent ?names s \<and> (\<forall>t. is_most_frequent ?names t \<longrightarrow> s \<le> t)"
    using sorted_first_PStr [OF max_keys_nonempty [OF ne] mx_str]
    unfolding most mx_set most_frequent_PStr by blast
  moreover have "\<exists>s. get_state_with_least_disasters self = Inr (PStr s)
            \<and> is_least_frequent ?names s \<and> (\<forall>t. is_least_frequent ?names t \<longrightarrow> s \<le> t)"
    using sorted_first_PStr [OF min_keys_nonempty [OF ne] mn_str]
    unfolding least mn_set least_frequent_PStr by blast
  ultimately show ?thesis by blast
qed

theorem state_with_most_and_least_disasters_witness:
  "get_state_with_most_disasters tie_tool = Inr (PStr ''Delaware'')
   \<and> get_state_with_least_disasters tie_tool = Inr (PStr ''Alaska'')"
proof -
  have h1: "disaster_data tie_tool \<noteq> []"
    by (simp add: tie_tool_def)
  have h2: "\<forall>r\<in>set (disaster_data tie_tool). str_field r ''state''"
    by (simp add: tie_tool_def str_field_def)
  have most: "get_state_with_most_disasters tie_tool = Inr (PStr ''Delaware'')"
    by (simp add: tie_tool_def get_state_with_most_disasters_def py_getitem_def key_eq_def
          py_eq_def py_lt_def)
  have least: "get_state_with_least_disasters tie_tool = Inr (PStr ''Alaska'')"
    by (simp add: tie_tool_def get_state_with_least_disasters_def py_getitem_def key_eq_def
          py_eq_def py_lt_def)
  show ?thesis
    using state_with_most_and_least_disasters [OF h1 h2] most least by simp
qed

section \<open>The most spoken language of a state\<close>

lemma language_count_loop_tally:
  assumes "\<forall>a\<in>set agents. has_key a ''state''"
      and "\<forall>a\<in>set (agents_of_state agents st). str_field a ''secondary_language''"
  shows "language_count_loop agents st d
           = Inr (tally (map PStr (languages_of_state agents st)) d)"
  using assms
proof (induction agents arbitrary: d)
  case Nil
  then show ?case by (simp add: languages_of_state_def agents_of_state_def)
next
  case (Cons a agents)
  obtain so where so: "a ''state'' = Some so"
    using Cons.prems(1) by (auto simp: has_key_def)
  have get: "py_getitem a ''state'' = Inr so"
    by (simp add: py_getitem_def so)
  have rest: "\<forall>a\<in>set agents. has_key a ''state''"
    "\<forall>a\<in>set (agents_of_state agents st). str_field a ''secondary_language''"
    using Cons.prems by (auto simp: agents_of_state_def)
  have IH: "language_count_loop agents st d'
              = Inr (tally (map PStr (languages_of_state agents st)) d')" for d'
    using Cons.IH [OF rest] .
  show ?case
  proof (cases "py_eq (obj_val so) st")
    case False
    then have "languages_of_state (a # agents) st = languages_of_state agents st"
      by (simp add: languages_of_state_def agents_of_state_def py_get_def so)
    then show ?thesis
      using False by (simp add: get IH)
  next
    case True
    define l where "l = field_str a ''secondary_language''"
    have "a \<in> set (agents_of_state (a # agents) st)"
      using True by (simp add: agents_of_state_def py_get_def so)
    then have "str_field a ''secondary_language''"
      using Cons.prems(2) by blast
    then obtain ob where ob: "a ''secondary_language'' = Some ob" "obj_val ob = PStr l"
      unfolding l_def by (blast dest: str_fieldD)
    have langs: "languages_of_state (a # agents) st = l # languages_of_state agents st"
      using True by (simp add: languages_of_state_def agents_of_state_def py_get_def so l_def)
    have get2: "py_getitem a ''secondary_language'' = Inr ob"
      by (simp add: py_getitem_def ob)
    show ?thesis
    proof (cases "map_of d (PStr l)")
      case None
      then show ?thesis
        unfolding langs using True
        by (simp add: get get2 ob IH dict_contains_PStr dict_store_PStr)
    next
      case (Some c)
      then show ?thesis
        unfolding langs using True
        by (simp add: get get2 ob IH dict_contains_PStr dict_lookup_PStr dict_store_PStr)
    qed
  qed
qed

lemma py_first_filter:
  "py_first (filter P xs) = (case find P xs of None \<Rightarrow> Inl IndexError | Some x \<Rightarrow> Inr x)"
  by (induction xs) simp_all

lemma find_map: "find P (map f xs) = map_option f (find (\<lambda>x. P (f x)) xs)"
  by (induction xs) simp_all

lemma find_Some_split:
  "find Q xs = Some x \<Longrightarrow> \<exists>pre post. xs = pre @ x # post \<and> Q x \<and> (\<forall>y\<in>set pre. \<not> Q y)"
proof (induction xs)
  case Nil
  then show ?case by simp
next
  case (Cons a xs)
  show ?case
  proof (cases "Q a")
    case True
    then have "x = a" using Cons.prems by simp
    then have "a # xs = [] @ x # xs \<and> Q x \<and> (\<forall>y\<in>set []. \<not> Q y)"
      using True by simp
    then show ?thesis by blast
  next
    case False
    then have "find Q xs = Some x" using Cons.prems by simp
    then obtain pre post where p: "xs = pre @ x # post" "Q x" "\<forall>y\<in>set pre. \<not> Q y"
      using Cons.IH by blast
    then have "a # xs = (a # pre) @ x # post \<and> Q x \<and> (\<forall>y\<in>set (a # pre). \<not> Q y)"
      using False by simp
    then show ?thesis by blast
  qed
qed

lemma tally_max_iff:
  assumes "k \<in> set ks"
  shows "int (count_list ks k) = Max (set (map snd (tally ks [])))
         \<longleftrightarrow> (\<forall>t\<in>set ks. count_list ks t \<le> count_list ks k)"
proof -
  have ne: "ks \<noteq> []" using assms by auto
  have "k \<in> set (map fst (filter (\<lambda>kv. snd kv = Max (set (map snd (tally ks [])))) (tally ks [])))
        \<longleftrightarrow> int (count_list ks k) = Max (set (map snd (tally ks [])))"
    using assms by (auto simp: tally_empty_set image_iff)
  then show ?thesis
    unfolding tally_max_keys [OF ne] using assms by simp
qed

lemma max_keys_filter:
  "map fst (filter (\<lambda>kv. snd kv = Max (set (map snd (tally ks [])))) (tally ks []))
   = filter (\<lambda>k. \<forall>t\<in>set ks. count_list ks t \<le> count_list ks k) (map fst (tally ks []))"
proof -
  have "(snd kv = Max (set (map snd (tally ks []))))
        = (\<forall>t\<in>set ks. count_list ks t \<le> count_list ks (fst kv))"
    if "kv \<in> set (tally ks [])" for kv
  proof -
    from that obtain k where k: "k \<in> set ks" "kv = (k, int (count_list ks k))"
      unfolding tally_empty_set by blast
    show ?thesis
      unfolding k(2) fst_conv snd_conv by (rule tally_max_iff [OF k(1)])
  qed
  then have "filter (\<lambda>kv. snd kv = Max (set (map snd (tally ks [])))) (tally ks [])
        = filter (\<lambda>kv. \<forall>t\<in>set ks. count_list ks t \<le> count_list ks (fst kv)) (tally ks [])"
    by (intro filter_cong [OF refl]) blast
  then show ?thesis
    by (simp add: filter_map comp_def)
qed

text \<open>
  C8. When every agent has a \<^verbatim>\<open>state\<close> and every agent of the state asked for has a
  string as \<^verbatim>\<open>secondary_language\<close>: with no agent in the state the query returns the
  empty string; otherwise it returns a language of maximal frequency among the state's
  agents, the one met first in the scan: no language met before its first occurrence
  has maximal frequency.
\<close>

theorem most_spoken_language_first_seen:
  assumes "\<forall>a\<in>set (agent_data self). has_key a ''state''"
      and "\<forall>a\<in>set (agents_of_state (agent_data self) st). str_field a ''secondary_language''"
  shows "(languages_of_state (agent_data self) st = [] \<longrightarrow>
            get_most_spoken_agent_language_by_state self st = Inr (PStr []))
       \<and> (languages_of_state (agent_data self) st \<noteq> [] \<longrightarrow>
            (\<exists>l pre post.
               get_most_spoken_agent_language_by_state self st = Inr (PStr l)
               \<and> languages_of_state (agent_data self) st = pre @ l # post
               \<and> is_most_frequent (languages_of_state (agent_data self) st) l
               \<and> (\<forall>t\<in>set pre. \<not> is_most_frequent (languages_of_state (agent_data self) st) t)))"
proof -
  let ?langs = "languages_of_state (agent_data self) st"
  let ?ks = "map PStr ?langs"
  let ?d = "tally ?ks []"
  let ?P = "\<lambda>k. \<forall>t\<in>set ?ks. count_list ?ks t \<le> count_list ?ks k"
  have loop: "language_count_loop (agent_data self) st [] = Inr ?d"
    by (rule language_count_loop_tally [OF assms])
  have empty: "get_most_spoken_agent_language_by_state self st = Inr (PStr [])" if "?langs = []"
    using that by (simp add: get_most_spoken_agent_language_by_state_def loop)
  have full: "\<exists>l pre post.
               get_most_spoken_agent_language_by_state self st = Inr (PStr l)
               \<and> ?langs = pre @ l # post
               \<and> is_most_frequent ?langs l
               \<and> (\<forall>t\<in>set pre. \<not> is_most_frequent ?langs t)" if ne: "?langs \<noteq> []"
  proof -
    have kne: "?ks \<noteq> []" using ne by simp
    have dne: "?d \<noteq> []" by (rule tally_nonempty [OF kne])
    then have vne: "map snd ?d \<noteq> []" by simp
    have Q: "?P (PStr s) \<longleftrightarrow> is_most_frequent ?langs s" if "s \<in> set ?langs" for s
      using that by (auto simp: is_most_frequent_def count_list_PStr)
    have "get_most_spoken_agent_language_by_state self st
          = py_first (map fst (filter (\<lambda>kv. snd kv = Max (set (map snd ?d))) ?d))"
      using dne
      by (simp add: get_most_spoken_agent_language_by_state_def loop py_max_Max [OF vne])
    also have "\<dots> = py_first (filter ?P (map fst ?d))"
      by (simp only: max_keys_filter)
    also have "\<dots> = (case find ?P (map fst ?d) of None \<Rightarrow> Inl IndexError | Some x \<Rightarrow> Inr x)"
      by (rule py_first_filter)
    also have "find ?P (map fst ?d) = find ?P ?ks"
      by (simp only: find_keys_tally list.map find.simps option.case)
    finally have res: "get_most_spoken_agent_language_by_state self st
          = (case find ?P ?ks of None \<Rightarrow> Inl IndexError | Some x \<Rightarrow> Inr x)" .
    have "find ?P ?ks = map_option PStr (find (\<lambda>s. ?P (PStr s)) ?langs)"
      by (rule find_map)
    also have "find (\<lambda>s. ?P (PStr s)) ?langs = find (is_most_frequent ?langs) ?langs"
      by (rule find_cong [OF refl]) (rule Q)
    finally have fnd: "find ?P ?ks = map_option PStr (find (is_most_frequent ?langs) ?langs)" .
    have "hd (map fst (filter (\<lambda>kv. snd kv = Max (set (map snd ?d))) ?d))
            \<in> set (map fst (filter (\<lambda>kv. snd kv = Max (set (map snd ?d))) ?d))"
      by (rule hd_in_set [OF max_keys_nonempty [OF kne]])
    then obtain k where "k \<in> set ?ks" "?P k"
      unfolding tally_max_keys [OF kne] by blast
    then obtain s where "s \<in> set ?langs" "is_most_frequent ?langs s"
      using Q by auto
    then have "find (is_most_frequent ?langs) ?langs \<noteq> None"
      by (auto simp: find_None_iff)
    then obtain l where l: "find (is_most_frequent ?langs) ?langs = Some l" by blast
    from find_Some_split [OF l] obtain pre post where
      "?langs = pre @ l # post" "is_most_frequent ?langs l"
      "\<forall>t\<in>set pre. \<not> is_most_frequent ?langs t" by blast
    moreover have "get_most_spoken_agent_language_by_state self st = Inr (PStr l)"
      unfolding res fnd l by simp
    ultimately show ?thesis by blast
  qed
  show ?thesis using empty full by blast
qed

theorem most_spoken_language_first_seen_witness:
  "get_most_spoken_agent_language_by_state tie_tool (PStr ''Ohio'') = Inr (PStr ''Spanish'')
   \<and> get_most_spoken_agent_language_by_state tie_tool (PStr ''Utah'') = Inr (PStr [])"
proof -
  have h1: "\<forall>a\<in>set (agent_data tie_tool). has_key a ''state''"
    by (simp add: tie_tool_def has_key_def)
  have h2: "\<forall>a\<in>set (agents_of_state (agent_data tie_tool) st). str_field a ''secondary_language''" for st
    by (simp add: tie_tool_def str_field_def agents_of_state_def)
  have ohio: "get_most_spoken_agent_language_by_state tie_tool (PStr ''Ohio'') = Inr (PStr ''Spanish'')"
    by (simp add: tie_tool_def get_most_spoken_agent_language_by_state_def py_getitem_def
          key_eq_def py_eq_def)
  have utah: "languages_of_state (agent_data tie_tool) (PStr ''Utah'') = []"
    by (simp add: tie_tool_def languages_of_state_def agents_of_state_def py_get_def py_eq_def)
  show ?thesis
    using most_spoken_language_first_seen [OF h1 h2, of "PStr ''Utah''"] utah ohio by simp
qed

section \<open>The map from agents to their total claim cost\<close>

lemma norm_dict_store:
  "norm_dict (dict_store d k v) = AList.update (py_key k) v (norm_dict d)"
  by (induction d) (auto simp: norm_dict_def key_eq_key)

lemma map_of_dict_store:
  "map_of (norm_dict (dict_store d k v)) = (map_of (norm_dict d))(py_key k \<mapsto> v)"
  by (simp add: norm_dict_store update_conv')

lemma distinct_dict_store:
  "distinct (map fst (norm_dict d)) \<Longrightarrow> distinct (map fst (norm_dict (dict_store d k v)))"
  by (simp add: norm_dict_store distinct_update)

lemma dict_contains_norm:
  "dict_contains d k \<longleftrightarrow> map_of (norm_dict d) (py_key k) \<noteq> None"
  by (induction d) (auto simp: norm_dict_def key_eq_key)

lemma dict_lookup_norm:
  "dict_lookup d k =
     (case map_of (norm_dict d) (py_key k) of None \<Rightarrow> Inl KeyError | Some v \<Rightarrow> Inr v)"
  by (induction d) (auto simp: norm_dict_def key_eq_key)

lemma py_add_number:
  assumes "py_add a b = Inr t" and "py_num a \<noteq> None"
  shows "(\<exists>i. t = PInt i) \<or> (\<exists>x. t = PFloat x)"
  using assms by (cases a; cases b) (auto simp: py_add_def split: sum.splits)

lemma py_sum_number:
  assumes "py_sum a vs = Inr t" and "(\<exists>i. a = PInt i) \<or> (\<exists>x. a = PFloat x)"
  shows "(\<exists>i. t = PInt i) \<or> (\<exists>x. t = PFloat x)"
  using assms
proof (induction vs arbitrary: a)
  case Nil
  then show ?case by auto
next
  case (Cons v vs)
  then obtain u where u: "py_add a v = Inr u" "py_sum u vs = Inr t"
    by (auto split: sum.splits)
  have "py_num a \<noteq> None" using Cons.prems(2) by auto
  from py_add_number [OF u(1) this] show ?case
    using Cons.IH [OF u(2)] by blast
qed

text \<open>\<^verbatim>\<open>round(x, 2)\<close> of a number is that number rounded to two decimals.\<close>

lemma py_round2_rounded:
  assumes "(\<exists>i. v = PInt i) \<or> (\<exists>x. v = PFloat x)"
  shows "\<exists>entry. py_round2 v = Inr entry \<and> rounded_to_2_decimals v entry"
proof (cases v)
  case (PFloat x)
  show ?thesis
  proof (cases x)
    case (Fin r)
    have "hundredths r (round_half_even (r * 100))" by (simp add: hundredths_iff)
    then show ?thesis
      unfolding PFloat Fin
      by (auto simp: py_round2_def fround2_def rounded_to_2_decimals_def)
  next
    case NegZero
    have "hundredths 0 0" by (simp add: hundredths_def)
    then show ?thesis
      unfolding PFloat NegZero
      by (auto simp: py_round2_def fround2_def rounded_to_2_decimals_def round_double_def
            intro!: exI [of _ 0])
  qed (simp_all add: PFloat py_round2_def fround2_def rounded_to_2_decimals_def)
qed (use assms in \<open>simp_all add: py_round2_def rounded_to_2_decimals_def\<close>)

text \<open>Rounding to two decimals determines the entry.\<close>

lemma rounded_to_2_decimals_unique:
  assumes "rounded_to_2_decimals v e1" and "rounded_to_2_decimals v e2"
  shows "e1 = e2"
  using assms
  by (cases v) (auto simp: rounded_to_2_decimals_def hundredths_iff split: if_splits)

lemma agent_init_loop_map:
  assumes "agent_init_loop agents d = Inr d'"
  shows "(\<forall>a\<in>set agents. has_key a ''id'')
       \<and> (\<forall>k. map_of (norm_dict d') k
               = (if k \<in> agent_keys agents then Some (PInt 0) else map_of (norm_dict d) k))
       \<and> (distinct (map fst (norm_dict d)) \<longrightarrow> distinct (map fst (norm_dict d')))"
  using assms
proof (induction agents arbitrary: d)
  case Nil
  then show ?case by (simp add: agent_keys_def)
next
  case (Cons a agents)
  from Cons.prems obtain ident where ident: "a ''id'' = Some ident"
    by (cases "a ''id''") (simp_all add: py_getitem_def)
  let ?d1 = "dict_store d (obj_val ident) (PInt 0)"
  have rest: "agent_init_loop agents ?d1 = Inr d'"
    using Cons.prems by (simp add: py_getitem_def ident)
  from Cons.IH [OF rest] have
    IH1: "\<forall>a\<in>set agents. has_key a ''id''" and
    IH2: "\<And>k. map_of (norm_dict d') k
               = (if k \<in> agent_keys agents then Some (PInt 0) else map_of (norm_dict ?d1) k)" and
    IH3: "distinct (map fst (norm_dict ?d1)) \<longrightarrow> distinct (map fst (norm_dict d'))"
    by blast+
  have keys: "agent_keys (a # agents) = insert (py_key (obj_val ident)) (agent_keys agents)"
    by (simp add: agent_keys_def py_get_def ident)
  have "map_of (norm_dict d') k
          = (if k \<in> agent_keys (a # agents) then Some (PInt 0) else map_of (norm_dict d) k)" for k
    by (simp add: IH2 keys map_of_dict_store)
  moreover have "distinct (map fst (norm_dict d)) \<longrightarrow> distinct (map fst (norm_dict d'))"
    using IH3 distinct_dict_store [of d "obj_val ident" "PInt 0"] by blast
  moreover have "\<forall>a\<in>set (a # agents). has_key a ''id''"
    using IH1 by (simp add: has_key_def ident)
  ultimately show ?case by blast
qed

lemma claim_cost_loop_step:
  assumes "claim_cost_loop (c # cs) d = Inr d'"
  shows "\<exists>w. claim_cost_loop cs (dict_store d (py_get c ''agent_assigned_id'' PNone) w) = Inr d'
           \<and> (dict_contains d (py_get c ''agent_assigned_id'' PNone) \<and> \<not> null_cost c \<longrightarrow>
                (\<exists>u. dict_lookup d (py_get c ''agent_assigned_id'' PNone) = Inr u
                     \<and> py_add u (py_get c ''estimate_cost'' (PInt 0)) = Inr w))"
  using assms
  by (auto simp: Let_def null_cost_def split: if_splits sum.splits)

lemma claim_cost_loop_keeps:
  assumes "claim_cost_loop cs d = Inr d'"
  shows "(map_of (norm_dict d) k \<noteq> None \<longrightarrow> map_of (norm_dict d') k \<noteq> None)
       \<and> (distinct (map fst (norm_dict d)) \<longrightarrow> distinct (map fst (norm_dict d')))"
  using assms
proof (induction cs arbitrary: d)
  case Nil
  then show ?case by simp
next
  case (Cons c cs)
  from claim_cost_loop_step [OF Cons.prems] obtain w where
    w: "claim_cost_loop cs (dict_store d (py_get c ''agent_assigned_id'' PNone) w) = Inr d'"
    by blast
  let ?d1 = "dict_store d (py_get c ''agent_assigned_id'' PNone) w"
  have "map_of (norm_dict d) k \<noteq> None \<longrightarrow> map_of (norm_dict ?d1) k \<noteq> None"
    by (simp add: map_of_dict_store)
  moreover have "distinct (map fst (norm_dict d)) \<longrightarrow> distinct (map fst (norm_dict ?d1))"
    by (simp add: distinct_dict_store)
  ultimately show ?case
    using Cons.IH [OF w] by blast
qed

lemma claim_cost_loop_entry:
  assumes "claim_cost_loop cs d = Inr d'"
      and "map_of (norm_dict d) (py_key k) = Some v"
      and "\<forall>c\<in>set (claims_of_agent cs k). \<not> null_cost c"
  shows "\<exists>v'. map_of (norm_dict d') (py_key k) = Some v' \<and> py_sum v (agent_costs cs k) = Inr v'"
  using assms
proof (induction cs arbitrary: d v)
  case Nil
  then show ?case by (simp add: agent_costs_def claims_of_agent_def)
next
  case (Cons c cs)
  let ?a = "py_get c ''agent_assigned_id'' PNone"
  let ?cost = "py_get c ''estimate_cost'' (PInt 0)"
  from claim_cost_loop_step [OF Cons.prems(1)] obtain w where
    w: "claim_cost_loop cs (dict_store d ?a w) = Inr d'" and
    add: "dict_contains d ?a \<and> \<not> null_cost c \<longrightarrow>
            (\<exists>u. dict_lookup d ?a = Inr u \<and> py_add u ?cost = Inr w)"
    by blast
  show ?case
  proof (cases "key_eq ?a k")
    case True
    then have key: "py_key ?a = py_key k" by (simp add: key_eq_key)
    have mem: "claims_of_agent (c # cs) k = c # claims_of_agent cs k"
      using True by (simp add: claims_of_agent_def)
    then have nn: "\<not> null_cost c" and rest: "\<forall>c\<in>set (claims_of_agent cs k). \<not> null_cost c"
      using Cons.prems(3) by simp_all
    have "dict_contains d ?a"
      using Cons.prems(2) by (simp add: dict_contains_norm key)
    moreover have "dict_lookup d ?a = Inr v"
      using Cons.prems(2) by (simp add: dict_lookup_norm key)
    ultimately have sum: "py_add v ?cost = Inr w"
      using add nn by auto
    have stored: "map_of (norm_dict (dict_store d ?a w)) (py_key k) = Some w"
      by (simp add: map_of_dict_store key)
    from Cons.IH [OF w stored rest] obtain v' where
      "map_of (norm_dict d') (py_key k) = Some v'" "py_sum w (agent_costs cs k) = Inr v'"
      by blast
    moreover have "agent_costs (c # cs) k = ?cost # agent_costs cs k"
      by (simp add: agent_costs_def mem)
    ultimately show ?thesis
      by (simp add: sum)
  next
    case False
    then have key: "py_key ?a \<noteq> py_key k" by (simp add: key_eq_key)
    have mem: "claims_of_agent (c # cs) k = claims_of_agent cs k"
      using False by (simp add: claims_of_agent_def)
    have stored: "map_of (norm_dict (dict_store d ?a w)) (py_key k) = Some v"
      using Cons.prems(2) key by (simp add: map_of_dict_store)
    have rest: "\<forall>c\<in>set (claims_of_agent cs k). \<not> null_cost c"
      using Cons.prems(3) by (simp add: mem)
    show ?thesis
      using Cons.IH [OF w stored rest]
      by (simp add: mem agent_costs_def)
  qed
qed

lemma round_loop_map:
  assumes "round_loop items d = Inr d'"
      and "distinct (map fst (norm_dict items))"
  shows "map_of (norm_dict d') k =
           (case map_of (norm_dict items) k of
              None \<Rightarrow> map_of (norm_dict d) k
            | Some v \<Rightarrow>
                if v = PNone then map_of (norm_dict d) k
                else (case py_round2 v of Inl e \<Rightarrow> None | Inr r \<Rightarrow> Some r))
         \<and> (\<forall>v. map_of (norm_dict items) k = Some v \<and> v \<noteq> PNone \<longrightarrow>
               (\<exists>r. py_round2 v = Inr r))"
  using assms
proof (induction items arbitrary: d)
  case Nil
  then show ?case by (simp add: norm_dict_def)
next
  case (Cons item items)
  have nd: "norm_dict (item # items) = (py_key (fst item), snd item) # norm_dict items"
    by (simp add: norm_dict_def)
  have dist: "distinct (map fst (norm_dict items))"
    and fresh: "map_of (norm_dict items) (py_key (fst item)) = None"
    using Cons.prems(2) by (simp_all add: nd map_of_eq_None_iff)
  show ?case
  proof (cases "snd item = PNone")
    case True
    then have "round_loop items d = Inr d'" using Cons.prems(1) by simp
    from Cons.IH [OF this dist] show ?thesis
      using True fresh
      by (cases "k = py_key (fst item)") (simp_all add: nd split: option.splits)
  next
    case False
    then obtain r where r: "py_round2 (snd item) = Inr r"
      and rest: "round_loop items (dict_store d (fst item) r) = Inr d'"
      using Cons.prems(1) by (auto split: sum.splits)
    from Cons.IH [OF rest dist] show ?thesis
      using False fresh r
      by (cases "k = py_key (fst item)") (simp_all add: nd map_of_dict_store split: option.splits)
  qed
qed

text \<open>
  C5. When the method returns a map, every agent of the agent list has an \<^verbatim>\<open>id\<close> and
  that id is a key of the map; an agent that no claim refers to has the int 0 there; and
  for an agent whose claims all have a cost other than \<^verbatim>\<open>None\<close>, the costs of those
  claims, added in scan order from the int 0, have a sum, and the agent's entry is that
  sum rounded to two decimals.
\<close>

theorem agent_map_entries:
  assumes "build_map_of_agents_to_total_claim_cost self = Inr m"
      and "a \<in> set (agent_data self)"
  shows "\<exists>ident. a ''id'' = Some ident
          \<and> dict_contains m (obj_val ident)
          \<and> (claims_of_agent (claim_data self) (obj_val ident) = [] \<longrightarrow>
                dict_lookup m (obj_val ident) = Inr (PInt 0))
          \<and> ((\<forall>c\<in>set (claims_of_agent (claim_data self) (obj_val ident)). \<not> null_cost c) \<longrightarrow>
                (\<exists>amount entry.
                   py_sum (PInt 0) (agent_costs (claim_data self) (obj_val ident)) = Inr amount
                   \<and> dict_lookup m (obj_val ident) = Inr entry
                   \<and> rounded_to_2_decimals amount entry))"
proof -
  from assms(1) obtain d0 d1 where
    init: "agent_init_loop (agent_data self) [] = Inr d0" and
    cl: "claim_cost_loop (claim_data self) d0 = Inr d1" and
    rl: "round_loop d1 d1 = Inr m"
    by (auto simp: build_map_of_agents_to_total_claim_cost_def split: sum.splits)
  from agent_init_loop_map [OF init] have
    ids: "\<forall>a\<in>set (agent_data self). has_key a ''id''" and
    m0: "\<And>k. map_of (norm_dict d0) k
            = (if k \<in> agent_keys (agent_data self) then Some (PInt 0) else None)" and
    dist0: "distinct (map fst (norm_dict d0))"
    by (simp_all add: norm_dict_def)
  from ids assms(2) obtain ident where ident: "a ''id'' = Some ident"
    by (auto simp: has_key_def)
  let ?k = "obj_val ident"
  let ?refs = "claims_of_agent (claim_data self) ?k"
  have "py_key ?k \<in> agent_keys (agent_data self)"
    using assms(2) by (force simp: agent_keys_def py_get_def ident)
  then have e0: "map_of (norm_dict d0) (py_key ?k) = Some (PInt 0)"
    by (simp add: m0)
  have dist1: "distinct (map fst (norm_dict d1))"
    using claim_cost_loop_keeps [OF cl] dist0 by blast
  have in1: "map_of (norm_dict d1) (py_key ?k) \<noteq> None"
    using claim_cost_loop_keeps [OF cl, of "py_key ?k"] e0 by simp
  then obtain v1 where v1: "map_of (norm_dict d1) (py_key ?k) = Some v1" by blast
  note rm = round_loop_map [OF rl dist1, of "py_key ?k"]
  have contains: "dict_contains m ?k"
  proof (cases "v1 = PNone")
    case True
    then show ?thesis using rm v1 by (simp add: dict_contains_norm)
  next
    case False
    then obtain r where "py_round2 v1 = Inr r" using rm v1 by blast
    then show ?thesis using rm v1 False by (simp add: dict_contains_norm)
  qed
  have summed: "\<exists>amount entry.
                   py_sum (PInt 0) (agent_costs (claim_data self) ?k) = Inr amount
                   \<and> dict_lookup m ?k = Inr entry
                   \<and> rounded_to_2_decimals amount entry"
    if nn: "\<forall>c\<in>set ?refs. \<not> null_cost c"
  proof -
    from claim_cost_loop_entry [OF cl e0 nn] obtain v' where
      v': "map_of (norm_dict d1) (py_key ?k) = Some v'"
          "py_sum (PInt 0) (agent_costs (claim_data self) ?k) = Inr v'"
      by blast
    have num: "(\<exists>i. v' = PInt i) \<or> (\<exists>x. v' = PFloat x)"
      by (rule py_sum_number [OF v'(2)]) simp
    from py_round2_rounded [OF num] obtain r where
      r: "py_round2 v' = Inr r" "rounded_to_2_decimals v' r"
      by blast
    have "v' \<noteq> PNone" using num by auto
    then have "map_of (norm_dict m) (py_key ?k) = Some r"
      using rm v'(1) r(1) by simp
    then have "dict_lookup m ?k = Inr r"
      by (simp add: dict_lookup_norm)
    then show ?thesis using v'(2) r(2) by blast
  qed
  have zero: "dict_lookup m ?k = Inr (PInt 0)" if "?refs = []"
  proof -
    from summed that obtain amount entry where
      s: "py_sum (PInt 0) (agent_costs (claim_data self) ?k) = Inr amount"
         "dict_lookup m ?k = Inr entry" "rounded_to_2_decimals amount entry"
      by auto
    have "amount = PInt 0" using s(1) that by (simp add: agent_costs_def)
    then show ?thesis using s(2,3) by (simp add: rounded_to_2_decimals_def)
  qed
  show ?thesis
    using ident contains zero summed by blast
qed

theorem agent_map_entries_witness:
  "build_map_of_agents_to_total_claim_cost halves_tool
     = Inr [(PInt 1, PFloat (json_float 2.67)), (PInt 2, PFloat (json_float 0.12)),
            (PInt 3, PFloat (json_float 0.38))]
   \<and> rounded_to_2_decimals (PFloat (json_float 2.675)) (PFloat (json_float 2.67))
   \<and> build_map_of_agents_to_total_claim_cost costs_tool
     = Inr [(PInt 1, PFloat (json_float 150.00)), (PInt 2, PInt 0),
            (PInt 3, PFloat (json_float 10.25)), (PInt 4, PNone), (PInt 99, PNone)]"
proof -
  have ev: "build_map_of_agents_to_total_claim_cost halves_tool
     = Inr [(PInt 1, PFloat (json_float 2.67)), (PInt 2, PFloat (json_float 0.12)),
            (PInt 3, PFloat (json_float 0.38))]"
    unfolding halves_tool_def json_float_2_675 json_float_2_67 json_float_0_125
      json_float_0_12 json_float_0_375 json_float_0_38
    by (simp add: build_map_of_agents_to_total_claim_cost_def py_getitem_def py_get_def
          key_eq_def py_eq_def num_eq_def py_add_def py_float_def float_of_int_def fadd_def
          py_round2_def fround2_def round_double_def [of _ 0]
          round_double_at [where e = 1] round_double_at [where e = "- 2"]
          round_double_at [where e = "- 3"] round_double_at [where e = "- 4"]
          pow2_def round_half_even_def Let_def)
  have ev2: "build_map_of_agents_to_total_claim_cost costs_tool
     = Inr [(PInt 1, PFloat (json_float 150.00)), (PInt 2, PInt 0),
            (PInt 3, PFloat (json_float 10.25)), (PInt 4, PNone), (PInt 99, PNone)]"
    unfolding costs_tool_def json_float_100_005 json_float_50 json_float_150 json_float_7_5
      json_float_0_25 json_float_10_25
    by (simp add: build_map_of_agents_to_total_claim_cost_def py_getitem_def py_get_def
          key_eq_def py_eq_def num_eq_def py_add_def py_float_def float_of_int_def fadd_def
          py_round2_def fround2_def round_double_def [of _ 0]
          round_double_at [where e = 3] round_double_at [where e = 6]
          round_double_at [where e = 7]
          pow2_def round_half_even_def Let_def)
  have mem: "[''id'' \<mapsto> Obj 1 (PInt 1)] \<in> set (agent_data halves_tool)"
    by (simp add: halves_tool_def)
  have refs: "claims_of_agent (claim_data halves_tool) (PInt 1)
      = [[''agent_assigned_id'' \<mapsto> Obj 11 (PInt 1),
          ''estimate_cost'' \<mapsto> Obj 12 (PFloat (json_float 2.675))]]"
    unfolding halves_tool_def json_float_2_675 json_float_0_125 json_float_0_375
    by (simp add: claims_of_agent_def py_get_def key_eq_def py_eq_def num_eq_def)
  have amount: "py_sum (PInt 0) (agent_costs (claim_data halves_tool) (PInt 1))
      = Inr (PFloat (json_float 2.675))"
    unfolding agent_costs_def refs json_float_2_675
    by (simp add: py_get_def py_add_def py_float_def float_of_int_def fadd_def
          round_double_def [of _ 0] round_double_at [where e = 1] pow2_def round_half_even_def
          Let_def)
  have entry: "dict_lookup [(PInt 1, PFloat (json_float 2.67)), (PInt 2, PFloat (json_float 0.12)),
            (PInt 3, PFloat (json_float 0.38))] (PInt 1) = Inr (PFloat (json_float 2.67))"
    by (simp add: key_eq_def py_eq_def num_eq_def)
  have nn: "\<forall>c\<in>set (claims_of_agent (claim_data halves_tool) (PInt 1)). \<not> null_cost c"
    unfolding refs json_float_2_675 by (simp add: null_cost_def py_get_def)
  from agent_map_entries [OF ev mem] obtain ident where
    ident: "[''id'' \<mapsto> Obj 1 (PInt 1)] ''id'' = Some ident" and
    sum: "(\<forall>c\<in>set (claims_of_agent (claim_data halves_tool) (obj_val ident)). \<not> null_cost c) \<longrightarrow>
            (\<exists>amount entry.
               py_sum (PInt 0) (agent_costs (claim_data halves_tool) (obj_val ident)) = Inr amount
               \<and> dict_lookup [(PInt 1, PFloat (json_float 2.67)), (PInt 2, PFloat (json_float 0.12)),
                    (PInt 3, PFloat (json_float 0.38))] (obj_val ident) = Inr entry
               \<and> rounded_to_2_decimals amount entry)"
    by blast
  have "obj_val ident = PInt 1" using ident by auto
  with sum nn obtain am en where
    s: "py_sum (PInt 0) (agent_costs (claim_data halves_tool) (PInt 1)) = Inr am"
       "dict_lookup [(PInt 1, PFloat (json_float 2.67)), (PInt 2, PFloat (json_float 0.12)),
            (PInt 3, PFloat (json_float 0.38))] (PInt 1) = Inr en"
       "rounded_to_2_decimals am en"
    by auto
  from s(1) amount have "am = PFloat (json_float 2.675)" by (simp only: sum.inject)
  moreover from s(2) entry have "en = PFloat (json_float 2.67)" by (simp only: sum.inject)
  ultimately have "rounded_to_2_decimals (PFloat (json_float 2.675)) (PFloat (json_float 2.67))"
    using s(3) by (simp only:)
  then show ?thesis
    using ev ev2 by (simp only: simp_thms)
qed

text \<open>
  C6. The docstring asks for \<^verbatim>\<open>None\<close> under an invalid agent id. The first claim that
  names the missing agent 99 stores \<^verbatim>\<open>None\<close> under 99; for the second claim 99 is a
  key, so the method adds the cost to \<^verbatim>\<open>None\<close> and raises \<^verbatim>\<open>TypeError\<close>: no map is
  returned. The same happens when a claim with a cost follows a claim with a
  \<^verbatim>\<open>null\<close> cost of the same agent.
\<close>

theorem agent_map_raises_on_second_dangling_claim:
  "build_map_of_agents_to_total_claim_cost dangling_twice_tool = Inl TypeError
   \<and> build_map_of_agents_to_total_claim_cost null_then_cost_tool = Inl TypeError"
  unfolding dangling_twice_tool_def null_then_cost_tool_def json_float_10 json_float_20
    json_float_5
  by (simp add: build_map_of_agents_to_total_claim_cost_def py_getitem_def py_get_def
        key_eq_def py_eq_def num_eq_def py_add_def py_float_def float_of_int_def fadd_def
        round_double_def Let_def)

section \<open>Open claims of an agent\<close>

text \<open>
  What the method computes: -1 for a minimum severity outside 1 to 10, whatever the agent
  and the data; otherwise the number of open claims of at least that severity whose
  agent id is the same object as the argument, or \<^verbatim>\<open>None\<close> when there is none. For an
  int from -5 to 256 being the same object is being equal, so there the method counts
  the claims of the agent.
\<close>

lemma open_claims_loop_count:
  assumes "\<forall>c\<in>set cs. has_key c ''agent_assigned_id'' \<and> num_field c ''severity_rating''
             \<and> has_key c ''status''"
  shows "open_claims_loop cs a (PInt i) n
           = Inr (n + int (length (same_object_claims cs a (PInt i))))"
  using assms
proof (induction cs arbitrary: n)
  case Nil
  then show ?case by (simp add: same_object_claims_def)
next
  case (Cons c cs)
  obtain ob where ob: "c ''agent_assigned_id'' = Some ob"
    using Cons.prems by (auto simp: has_key_def)
  obtain sv y where sv: "c ''severity_rating'' = Some sv" "py_num (obj_val sv) = Some y"
    using Cons.prems by (auto simp: num_field_def split: option.splits)
  obtain st where st: "c ''status'' = Some st"
    using Cons.prems by (auto simp: has_key_def)
  have IH: "open_claims_loop cs a (PInt i) k
              = Inr (k + int (length (same_object_claims cs a (PInt i))))" for k
    using Cons by simp
  have ge: "py_ge (obj_val sv) (PInt i) = Inr (num_le (Finite (of_int i)) y)"
    by (simp add: py_ge_def sv)
  show ?case
    by (simp add: py_getitem_def py_get_def ob sv st ge IH same_object_claims_def)
qed

lemma open_claims_by_identity:
  assumes "\<forall>c\<in>set (claim_data self). has_key c ''agent_assigned_id''
             \<and> num_field c ''severity_rating'' \<and> has_key c ''status''"
  shows "get_num_of_open_claims_for_agent_and_severity self a (PInt i)
           = (if i < 1 \<or> 10 < i then Inr (PInt (- 1))
              else if same_object_claims (claim_data self) a (PInt i) = [] then Inr PNone
              else Inr (PInt (int (length (same_object_claims (claim_data self) a (PInt i))))))"
  by (simp add: get_num_of_open_claims_for_agent_and_severity_def py_lt_def py_gt_def
        open_claims_loop_count [OF assms])

lemma open_claims_out_of_range:
  "i < 1 \<or> 10 < i \<Longrightarrow>
     get_num_of_open_claims_for_agent_and_severity self a (PInt i) = Inr (PInt (- 1))"
  by (auto simp: get_num_of_open_claims_for_agent_and_severity_def py_lt_def py_gt_def)

lemma same_object_claims_small_id:
  assumes "- 5 \<le> n" and "n \<le> 256"
      and "\<forall>c\<in>set cs. int_field c ''agent_assigned_id''"
      and "\<forall>c\<in>set cs. \<forall>ob. c ''agent_assigned_id'' = Some ob \<and> obj_id ob = j
                              \<longrightarrow> obj_val ob = PInt n"
  shows "same_object_claims cs (Obj j (PInt n)) m = open_claims_of_agent cs (PInt n) m"
proof -
  have "(case c ''agent_assigned_id'' of None \<Rightarrow> False | Some ob \<Rightarrow> py_is ob (Obj j (PInt n)))
        = py_eq (py_get c ''agent_assigned_id'' PNone) (PInt n)"
    if "c \<in> set cs" for c
  proof -
    from that assms(3) have "int_field c ''agent_assigned_id''" by blast
    then obtain ob k where ob: "c ''agent_assigned_id'' = Some ob" "obj_val ob = PInt k"
      by (cases "c ''agent_assigned_id''"; cases "obj_val (the (c ''agent_assigned_id''))")
         (simp_all add: int_field_def)
    have "obj_id ob = j \<longrightarrow> k = n"
      using assms(4) that ob by auto
    then show ?thesis
      using assms(1,2) by (auto simp: ob py_is_def py_get_def py_eq_def num_eq_def)
  qed
  then show ?thesis
    unfolding same_object_claims_def open_claims_of_agent_def
    by (intro filter_cong [OF refl]) simp
qed

text \<open>
  C4. Agent 1000 has one open claim of severity 5, and the caller's 1000 is not the
  object the data holds (CPython shares ints only from -5 to 256): \<^verbatim>\<open>is\<close> is false for
  every claim and the method returns \<^verbatim>\<open>None\<close> where the count is 1. For agent 7 the
  same call returns 1.
\<close>

theorem open_claims_missed_for_big_agent_id:
  "get_num_of_open_claims_for_agent_and_severity big_id_tool (Obj 99 (PInt 1000)) (PInt 1)
     = Inr PNone
   \<and> length (open_claims_of_agent (claim_data big_id_tool) (PInt 1000) (PInt 1)) = 1
   \<and> get_num_of_open_claims_for_agent_and_severity big_id_tool (Obj 98 (PInt 7)) (PInt 1)
     = Inr (PInt 1)"
  by (simp add: get_num_of_open_claims_for_agent_and_severity_def big_id_tool_def
        open_claims_of_agent_def py_getitem_def py_get_def py_eq_def num_eq_def py_is_def
        py_lt_def py_gt_def py_ge_def num_le_def)

section \<open>Which calls return\<close>

lemma has_keyD: "has_key r k \<Longrightarrow> \<exists>ob. py_getitem r k = Inr ob"
  by (cases "r k") (simp_all add: has_key_def py_getitem_def)

lemma num_fieldD:
  "num_field r k \<Longrightarrow> \<exists>ob x. py_getitem r k = Inr ob \<and> py_num (obj_val ob) = Some x"
  by (cases "r k") (auto simp: num_field_def py_getitem_def)

lemma str_field_getitem:
  "str_field r k \<Longrightarrow> \<exists>ob s. py_getitem r k = Inr ob \<and> obj_val ob = PStr s"
  by (cases "r k") (auto simp: str_field_def py_getitem_def split: pyval.splits)

lemma closed_claims_loop_returns:
  "\<forall>c\<in>set cs. has_key c ''status'' \<Longrightarrow> \<exists>n'. closed_claims_loop cs n = Inr n'"
proof (induction cs arbitrary: n)
  case Nil
  then show ?case by simp
next
  case (Cons c cs)
  then obtain ob where "py_getitem c ''status'' = Inr ob"
    using has_keyD [of c "''status''"] by auto
  then show ?case using Cons by simp
qed

lemma handler_claims_loop_returns:
  "\<forall>c\<in>set cs. has_key c ''claim_handler_assigned_id''
     \<Longrightarrow> \<exists>n'. handler_claims_loop cs h n = Inr n'"
proof (induction cs arbitrary: n)
  case Nil
  then show ?case by simp
next
  case (Cons c cs)
  then obtain ob where "py_getitem c ''claim_handler_assigned_id'' = Inr ob"
    using has_keyD [of c "''claim_handler_assigned_id''"] by auto
  then show ?case using Cons by simp
qed

lemma state_disasters_loop_returns:
  "\<forall>r\<in>set ds. has_key r ''state'' \<Longrightarrow> \<exists>n'. state_disasters_loop ds st n = Inr n'"
proof (induction ds arbitrary: n)
  case Nil
  then show ?case by simp
next
  case (Cons r ds)
  then obtain ob where "py_getitem r ''state'' = Inr ob"
    using has_keyD [of r "''state''"] by auto
  then show ?case using Cons by simp
qed

text \<open>Float arithmetic on plain costs does not raise.\<close>

lemma float_of_int_plain: "\<bar>i\<bar> < 2 ^ 53 \<Longrightarrow> \<exists>x. float_of_int i = Inr x"
  by (rule float_of_int_small) (simp add: order_less_trans [of _ "2 ^ 53"])

lemma py_float_plain: "plain_cost v \<Longrightarrow> \<exists>x. py_float v = Inr x"
  using float_of_int_plain [of 0] float_of_int_plain [of 1]
  by (cases v) (auto simp: plain_cost_def py_float_def float_of_int_plain)

lemma py_add_float_plain:
  assumes "plain_cost v"
  shows "\<exists>y. py_add (PFloat x) v = Inr (PFloat y)"
proof -
  obtain w where "py_float v = Inr w" using py_float_plain [OF assms] by blast
  moreover have "py_num v \<noteq> None" using assms by (cases v) (simp_all add: plain_cost_def)
  ultimately show ?thesis by (auto simp: py_add_def py_float_def)
qed

lemma py_sum_plain:
  "\<forall>v\<in>set vs. plain_cost v \<Longrightarrow> \<exists>y. py_sum (PFloat x) vs = Inr (PFloat y)"
proof (induction vs arbitrary: x)
  case Nil
  then show ?case by simp
next
  case (Cons v vs)
  then obtain y where "py_add (PFloat x) v = Inr (PFloat y)"
    using py_add_float_plain [of v x] by auto
  then show ?case using Cons by simp
qed

lemma cost_fieldD:
  "cost_field c \<Longrightarrow> has_key c ''estimate_cost'' \<and> plain_cost (py_get c ''estimate_cost'' dflt)"
  by (cases "c ''estimate_cost''") (simp_all add: cost_field_def has_key_def py_get_def)

lemma total_claim_cost_returns:
  assumes "\<forall>c\<in>set (claim_data self). has_key c ''disaster_id''"
      and "\<forall>c\<in>set (claims_of_disaster (claim_data self) d). cost_field c"
  shows "\<exists>r. get_total_claim_cost_for_disaster self d = Inr r"
proof -
  have keys: "\<forall>c\<in>set (claims_of_disaster (claim_data self) d). has_key c ''estimate_cost''"
    using assms(2) cost_fieldD by blast
  have "\<forall>v\<in>set (disaster_costs (claim_data self) d). plain_cost v"
    using assms(2) cost_fieldD by (auto simp: disaster_costs_def)
  then obtain y where
    "py_sum (PFloat (Fin 0)) (disaster_costs (claim_data self) d) = Inr (PFloat y)"
    using py_sum_plain by blast
  then show ?thesis
    by (simp add: get_total_claim_cost_for_disaster_def disaster_cost_loop_sum [OF assms(1) keys])
qed

lemma round_half_even_ge:
  assumes "of_int N \<le> x"
  shows "N \<le> round_half_even x"
proof -
  obtain f where f: "of_int f \<le> x" "x < of_int f + 1"
    "round_half_even x =
           (if x - of_int f < 1 / 2 then f else if 1 / 2 < x - of_int f then f + 1
            else if even f then f else f + 1)"
    by (rule round_half_even_cases)
  have "(of_int N :: rat) < of_int (f + 1)" using f(2) assms by simp
  then have "N < f + 1" by (simp only: of_int_less_iff)
  then show ?thesis using f(3) by (auto split: if_splits)
qed

text \<open>A number of magnitude at least 1 does not round to zero.\<close>

lemma round_double_nonzero:
  assumes "1 \<le> \<bar>r\<bar>"
  shows "\<not> num_eq (num_of_dbl (round_double neg r)) (Finite 0)"
proof -
  define E where "E = binary_exponent \<bar>r\<bar>"
  define q where "q = pow2 (E - 52)"
  define m where "m = round_half_even (\<bar>r\<bar> / q)"
  have r0: "r \<noteq> 0" using assms by auto
  then have pos: "0 < \<bar>r\<bar>" by simp
  have b: "pow2 E \<le> \<bar>r\<bar>" "\<bar>r\<bar> < pow2 (E + 1)"
    using binary_exponent_bounds [OF pos] by (simp_all add: E_def)
  have "\<not> E < 0"
  proof
    assume "E < 0"
    then have "pow2 (E + 1) \<le> pow2 0" by (intro pow2_mono) simp
    then show False using b(2) assms by (simp add: pow2_def)
  qed
  then have E: "max E (- 1022) = E" by simp
  have q: "0 < q" by (simp add: q_def)
  have "pow2 E = pow2 52 * q"
    using pow2_add [of 52 "E - 52"] by (simp add: q_def)
  then have "pow2 52 * q \<le> \<bar>r\<bar>" using b(1) by simp
  then have "pow2 52 \<le> \<bar>r\<bar> / q" using q by (simp add: field_simps)
  moreover have "pow2 52 = of_int (2 ^ 52)" by (simp add: pow2_def)
  ultimately have "of_int (2 ^ 52) \<le> \<bar>r\<bar> / q" by simp
  then have "2 ^ 52 \<le> m" unfolding m_def by (rule round_half_even_ge)
  then have m: "0 < m" by simp
  then have a: "0 < of_int m * q" using q by simp
  have "round_double neg r =
          (if pow2 1024 \<le> of_int m * q then (if r < 0 then NegInf else PosInf)
           else if m = 0 then (if r < 0 then NegZero else Fin 0)
           else Fin (if r < 0 then - (of_int m * q) else of_int m * q))"
    unfolding round_double_at [OF b] Let_def E q_def [symmetric] m_def [symmetric]
    by (rule refl)
  then show ?thesis
    using m a by (auto simp: num_eq_def)
qed

lemma float_of_count:
  assumes "1 \<le> n" and "n < 2 ^ 63"
  shows "\<exists>w. py_float (PInt n) = Inr w \<and> \<not> num_eq (num_of_dbl w) (Finite 0)"
proof -
  have "\<bar>n\<bar> < 2 ^ 1023"
    using assms by (simp add: order_less_trans [of _ "2 ^ 63"])
  then obtain w where w: "float_of_int n = Inr w" using float_of_int_small by blast
  then have "w = round_double False (of_int n)"
    by (simp add: float_of_int_def Let_def split: if_splits)
  moreover have "1 \<le> \<bar>of_int n :: rat\<bar>" using assms(1) by simp
  ultimately show ?thesis
    using w round_double_nonzero by (simp add: py_float_def)
qed

lemma handler_cost_loop_returns:
  assumes "\<forall>c\<in>set cs. has_key c ''claim_handler_assigned_id''"
      and "\<forall>c\<in>set (filter (\<lambda>c. py_eq (py_get c ''claim_handler_assigned_id'' PNone) h) cs).
             cost_field c"
  shows "\<exists>t' n'. handler_cost_loop cs h (PFloat t) n = Inr (PFloat t', n')
                \<and> handler_claims_loop cs h n = Inr n'
                \<and> n \<le> n' \<and> n' \<le> n + int (length cs)"
  using assms
proof (induction cs arbitrary: t n)
  case Nil
  then show ?case by simp
next
  case (Cons c cs)
  obtain ob where ob: "py_getitem c ''claim_handler_assigned_id'' = Inr ob"
    using Cons.prems(1) has_keyD [of c "''claim_handler_assigned_id''"] by auto
  then have get: "py_get c ''claim_handler_assigned_id'' PNone = obj_val ob"
    by (cases "c ''claim_handler_assigned_id''") (simp_all add: py_getitem_def py_get_def)
  have rest: "\<forall>c\<in>set cs. has_key c ''claim_handler_assigned_id''"
    "\<forall>c\<in>set (filter (\<lambda>c. py_eq (py_get c ''claim_handler_assigned_id'' PNone) h) cs).
       cost_field c"
    using Cons.prems by auto
  show ?case
  proof (cases "py_eq (obj_val ob) h")
    case True
    then have "cost_field c" using Cons.prems(2) get by simp
    then obtain co where co: "py_getitem c ''estimate_cost'' = Inr co" "plain_cost (obj_val co)"
      by (cases "c ''estimate_cost''") (simp_all add: cost_field_def py_getitem_def)
    obtain y where y: "py_add (PFloat t) (obj_val co) = Inr (PFloat y)"
      using py_add_float_plain [OF co(2)] by blast
    from Cons.IH [OF rest, of y "n + 1"] show ?thesis
      using True by (auto simp: ob co y)
  next
    case False
    from Cons.IH [OF rest, of t n] show ?thesis
      using False by (auto simp: ob)
  qed
qed

lemma average_claim_cost_returns:
  assumes "\<forall>c\<in>set (claim_data self). has_key c ''claim_handler_assigned_id''"
      and "\<forall>c\<in>set (filter (\<lambda>c. py_eq (py_get c ''claim_handler_assigned_id'' PNone) h)
                       (claim_data self)). cost_field c"
      and "list_size_ok (claim_data self)"
  shows "\<exists>r. get_average_claim_cost_for_claim_handler self h = Inr r"
proof -
  from handler_cost_loop_returns [OF assms(1,2), where t = "Fin 0" and n = 0] obtain t' n' where
    a: "handler_cost_loop (claim_data self) h (PFloat (Fin 0)) 0 = Inr (PFloat t', n')" and
    b: "handler_claims_loop (claim_data self) h 0 = Inr n'" and
    n: "0 \<le> n'" "n' \<le> int (length (claim_data self))"
    by auto
  show ?thesis
  proof (cases "n' = 0")
    case True
    then show ?thesis
      by (simp add: get_average_claim_cost_for_claim_handler_def
            get_num_claims_for_claim_handler_id_def b py_eq_def num_eq_def)
  next
    case False
    then have "1 \<le> n'" "n' < 2 ^ 63"
      using n assms(3) by (simp_all add: list_size_ok_def)
    from float_of_count [OF this] obtain w where
      w: "py_float (PInt n') = Inr w" "\<not> num_eq (num_of_dbl w) (Finite 0)"
      by blast
    have "py_truediv (PFloat t') (PInt n') = Inr (PFloat (fdiv t' w))"
      using w by (simp add: py_truediv_def py_float_def)
    then show ?thesis
      using False
      by (simp add: get_average_claim_cost_for_claim_handler_def
            get_num_claims_for_claim_handler_id_def a b py_eq_def num_eq_def py_round2_def)
  qed
qed

lemma declared_after_loop_returns:
  "\<forall>r\<in>set ds. str_field r ''declared_date'' \<and> str_field r ''end_date''
     \<Longrightarrow> \<exists>n'. declared_after_loop ds n = Inr n'"
proof (induction ds arbitrary: n)
  case Nil
  then show ?case by simp
next
  case (Cons r ds)
  obtain d1 s1 where d1: "py_getitem r ''declared_date'' = Inr d1" "obj_val d1 = PStr s1"
    using Cons.prems str_field_getitem [of r "''declared_date''"] by auto
  obtain d2 s2 where d2: "py_getitem r ''end_date'' = Inr d2" "obj_val d2 = PStr s2"
    using Cons.prems str_field_getitem [of r "''end_date''"] by auto
  have "\<exists>n'. declared_after_loop ds m = Inr n'" for m
    using Cons by simp
  then show ?case
    by (simp add: d1 d2 py_gt_def py_lt_def)
qed

lemma open_claims_loop_returns:
  assumes "\<forall>c\<in>set cs. has_key c ''agent_assigned_id'' \<and> num_field c ''severity_rating''
             \<and> has_key c ''status''"
      and "py_num m = Some x"
  shows "\<exists>n'. open_claims_loop cs a m n = Inr n'"
  using assms(1)
proof (induction cs arbitrary: n)
  case Nil
  then show ?case by simp
next
  case (Cons c cs)
  obtain ob where ob: "py_getitem c ''agent_assigned_id'' = Inr ob"
    using Cons.prems has_keyD [of c "''agent_assigned_id''"] by auto
  obtain sv y where sv: "py_getitem c ''severity_rating'' = Inr sv" "py_num (obj_val sv) = Some y"
    using Cons.prems num_fieldD [of c "''severity_rating''"] by auto
  obtain st where st: "py_getitem c ''status'' = Inr st"
    using Cons.prems has_keyD [of c "''status''"] by auto
  have ge: "py_ge (obj_val sv) m = Inr (num_le x y)"
    by (simp add: py_ge_def sv assms(2))
  have "\<exists>n'. open_claims_loop cs a m k = Inr n'" for k
    using Cons by simp
  then show ?case
    by (simp add: ob sv st ge)
qed

lemma open_claims_returns:
  assumes "py_num m \<noteq> None"
      and "py_lt m (PInt 1) = Inr True \<or> py_gt m (PInt 10) = Inr True
           \<or> (\<forall>c\<in>set (claim_data self). has_key c ''agent_assigned_id''
                  \<and> num_field c ''severity_rating'' \<and> has_key c ''status'')"
  shows "\<exists>r. get_num_of_open_claims_for_agent_and_severity self a m = Inr r"
proof -
  from assms(1) obtain x where x: "py_num m = Some x" by blast
  have lt: "py_lt m (PInt 1) = Inr (num_lt x (Finite 1))"
    and gt: "py_gt m (PInt 10) = Inr (num_lt (Finite 10) x)"
    by (simp_all add: py_lt_def py_gt_def x)
  show ?thesis
  proof (cases "num_lt x (Finite 1) \<or> num_lt (Finite 10) x")
    case True
    then show ?thesis
      by (auto simp: get_num_of_open_claims_for_agent_and_severity_def lt gt)
  next
    case False
    then have "\<forall>c\<in>set (claim_data self). has_key c ''agent_assigned_id''
                  \<and> num_field c ''severity_rating'' \<and> has_key c ''status''"
      using assms(2) by (simp add: lt gt)
    from open_claims_loop_returns [OF this x, of a 0] obtain n' where
      n': "open_claims_loop (claim_data self) a m 0 = Inr n'" by blast
    show ?thesis
      using False by (simp add: get_num_of_open_claims_for_agent_and_severity_def lt gt n')
  qed
qed

lemma dict_lookup_present: "dict_contains d k \<Longrightarrow> \<exists>v. dict_lookup d k = Inr v"
  by (induction d) auto

lemma language_count_loop_returns:
  assumes "\<forall>a\<in>set agents. has_key a ''state''"
      and "\<forall>a\<in>set (agents_of_state agents st). has_key a ''secondary_language''"
  shows "\<exists>d'. language_count_loop agents st d = Inr d'"
  using assms
proof (induction agents arbitrary: d)
  case Nil
  then show ?case by simp
next
  case (Cons a agents)
  obtain so where so: "py_getitem a ''state'' = Inr so"
    using Cons.prems(1) has_keyD [of a "''state''"] by auto
  then have get: "py_get a ''state'' PNone = obj_val so"
    by (cases "a ''state''") (simp_all add: py_getitem_def py_get_def)
  have rest: "\<forall>a\<in>set agents. has_key a ''state''"
    "\<forall>a\<in>set (agents_of_state agents st). has_key a ''secondary_language''"
    using Cons.prems by (auto simp: agents_of_state_def)
  have IH: "\<exists>d'. language_count_loop agents st e = Inr d'" for e
    using Cons.IH [OF rest] .
  show ?case
  proof (cases "py_eq (obj_val so) st")
    case False
    then show ?thesis using IH by (simp add: so)
  next
    case True
    then have "has_key a ''secondary_language''"
      using Cons.prems(2) get by (simp add: agents_of_state_def)
    then obtain lo where lo: "py_getitem a ''secondary_language'' = Inr lo"
      using has_keyD by blast
    show ?thesis
    proof (cases "dict_contains d (obj_val lo)")
      case True
      then obtain c where "dict_lookup d (obj_val lo) = Inr c"
        using dict_lookup_present by blast
      then show ?thesis
        using True \<open>py_eq (obj_val so) st\<close> IH by (simp add: so lo)
    next
      case False
      then show ?thesis
        using \<open>py_eq (obj_val so) st\<close> IH by (simp add: so lo)
    qed
  qed
qed

lemma most_spoken_language_returns:
  assumes "\<forall>a\<in>set (agent_data self). has_key a ''state''"
      and "\<forall>a\<in>set (agents_of_state (agent_data self) st). has_key a ''secondary_language''"
  shows "\<exists>r. get_most_spoken_agent_language_by_state self st = Inr r"
proof -
  obtain d where d: "language_count_loop (agent_data self) st [] = Inr d"
    using language_count_loop_returns [OF assms] by blast
  show ?thesis
  proof (cases "d = []")
    case True
    then show ?thesis
      by (simp add: get_most_spoken_agent_language_by_state_def d)
  next
    case False
    then have vne: "map snd d \<noteq> []" by simp
    then have "Max (set (map snd d)) \<in> set (map snd d)"
      by (intro Max_in) simp_all
    then have "map fst (filter (\<lambda>kv. snd kv = Max (set (map snd d))) d) \<noteq> []"
      by (fastforce simp: filter_empty_conv)
    then obtain y ys where
      "map fst (filter (\<lambda>kv. snd kv = Max (set (map snd d))) d) = y # ys"
      by (cases "map fst (filter (\<lambda>kv. snd kv = Max (set (map snd d))) d)") auto
    then have "py_first (map fst (filter (\<lambda>kv. snd kv = Max (set (map snd d))) d)) = Inr y"
      by simp
    then show ?thesis
      using False
      by (simp add: get_most_spoken_agent_language_by_state_def d py_max_Max [OF vne])
  qed
qed

lemma state_queries_return:
  assumes "disaster_data self \<noteq> []"
      and "\<forall>r\<in>set (disaster_data self). str_field r ''state''"
  shows "(\<exists>r. get_state_with_most_disasters self = Inr r)
       \<and> (\<exists>r. get_state_with_least_disasters self = Inr r)"
proof -
  let ?ks = "map PStr (state_names (disaster_data self))"
  let ?d = "tally ?ks []"
  have ne: "?ks \<noteq> []" using assms(1) by (simp add: state_names_def)
  have loop: "state_count_loop (disaster_data self) [] = Inr ?d"
    by (rule state_count_loop_tally [OF assms(2)])
  have dne: "map snd ?d \<noteq> []" using tally_nonempty [OF ne] by simp
  let ?mx = "map fst (filter (\<lambda>kv. snd kv = Max (set (map snd ?d))) ?d)"
  let ?mn = "map fst (filter (\<lambda>kv. snd kv = Min (set (map snd ?d))) ?d)"
  have mx_str: "\<forall>k\<in>set ?mx. \<exists>s. k = PStr s"
    unfolding tally_max_keys [OF ne] by auto
  have mn_str: "\<forall>k\<in>set ?mn. \<exists>s. k = PStr s"
    unfolding tally_min_keys [OF ne] by auto
  have most: "get_state_with_most_disasters self
                = (case py_sorted ?mx of Inl e \<Rightarrow> Inl e | Inr ys \<Rightarrow> py_first ys)"
    by (simp add: get_state_with_most_disasters_def loop py_max_Max [OF dne])
  have least: "get_state_with_least_disasters self
                = (case py_sorted ?mn of Inl e \<Rightarrow> Inl e | Inr ys \<Rightarrow> py_first ys)"
    by (simp add: get_state_with_least_disasters_def loop py_min_Min [OF dne])
  have "\<exists>r. get_state_with_most_disasters self = Inr r"
    using sorted_first_PStr [OF max_keys_nonempty [OF ne] mx_str] unfolding most by blast
  moreover have "\<exists>r. get_state_with_least_disasters self = Inr r"
    using sorted_first_PStr [OF min_keys_nonempty [OF ne] mn_str] unfolding least by blast
  ultimately show ?thesis by blast
qed

lemma agent_init_loop_returns:
  "\<forall>a\<in>set agents. has_key a ''id'' \<Longrightarrow> \<exists>d'. agent_init_loop agents d = Inr d'"
proof (induction agents arbitrary: d)
  case Nil
  then show ?case by simp
next
  case (Cons a agents)
  then obtain ob where "py_getitem a ''id'' = Inr ob"
    using has_keyD [of a "''id''"] by auto
  then show ?case using Cons by simp
qed

lemma dict_lookup_value: "dict_lookup d k = Inr v \<Longrightarrow> v \<in> snd ` set d"
  by (induction d) (auto split: if_splits)

lemma dict_store_values: "snd ` set (dict_store d k v) \<subseteq> insert v (snd ` set d)"
  by (induction d) auto

lemma dict_contains_store:
  "dict_contains (dict_store d k v) k' \<longleftrightarrow> key_eq k k' \<or> dict_contains d k'"
  by (auto simp: dict_contains_norm map_of_dict_store key_eq_key)

text \<open>
  Adding a plain cost to a running total below \<open>2 ^ 1023\<close> does not raise, and moves
  an int total by less than \<open>2 ^ 53\<close>.
\<close>

lemma py_add_bounded:
  assumes "bounded_number B u" and "plain_cost c" and "B < 2 ^ 1023"
  shows "\<exists>t. py_add u c = Inr t \<and> bounded_number (B + 2 ^ 53) t"
proof (cases u)
  case (PFloat x)
  then show ?thesis
    using py_add_float_plain [OF assms(2), of x] by (auto simp: bounded_number_def)
next
  case (PInt i)
  then have i: "\<bar>i\<bar> \<le> B" using assms(1) by (simp add: bounded_number_def)
  then have "\<bar>i\<bar> < 2 ^ 1023" using assms(3) by linarith
  then obtain w where w: "float_of_int i = Inr w" using float_of_int_small by blast
  show ?thesis
  proof (cases c)
    case (PFloat y)
    then show ?thesis
      using PInt w by (simp add: py_add_def py_float_def bounded_number_def)
  next
    case (PInt j)
    then have "\<bar>j\<bar> < 2 ^ 53" using assms(2) by (simp add: plain_cost_def)
    then have "\<bar>i + j\<bar> \<le> B + 2 ^ 53" using i by linarith
    then show ?thesis
      using PInt \<open>u = PInt i\<close> by (simp add: py_add_def bounded_number_def)
  next
    case (PBool b)
    have "\<bar>i + (if b then 1 else 0)\<bar> \<le> B + 2 ^ 53" using i by (cases b) simp_all
    then show ?thesis
      using PBool \<open>u = PInt i\<close> by (simp add: py_add_def bounded_number_def)
  qed (use assms(2) in \<open>simp_all add: plain_cost_def\<close>)
qed (use assms(1) in \<open>simp_all add: bounded_number_def\<close>)

lemma bounded_number_mono: "bounded_number B v \<Longrightarrow> B \<le> B' \<Longrightarrow> bounded_number B' v"
  by (cases v) (simp_all add: bounded_number_def)

lemma claim_cost_loop_returns:
  assumes "\<forall>c\<in>set cs. dict_contains d (py_get c ''agent_assigned_id'' PNone)
                        \<and> plain_cost (py_get c ''estimate_cost'' (PInt 0))"
      and "\<forall>v\<in>snd ` set d. bounded_number B v"
      and "B + int (length cs) * 2 ^ 53 < 2 ^ 1023"
  shows "\<exists>d' B'. claim_cost_loop cs d = Inr d' \<and> (\<forall>v\<in>snd ` set d'. bounded_number B' v)"
  using assms
proof (induction cs arbitrary: d B)
  case Nil
  then show ?case by auto
next
  case (Cons c cs)
  let ?a = "py_get c ''agent_assigned_id'' PNone"
  let ?cost = "py_get c ''estimate_cost'' (PInt 0)"
  have con: "dict_contains d ?a" and plain: "plain_cost ?cost"
    using Cons.prems(1) by simp_all
  then have nn: "?cost \<noteq> PNone" by (auto simp: plain_cost_def)
  obtain u where u: "dict_lookup d ?a = Inr u"
    using dict_lookup_present [OF con] by blast
  then have bu: "bounded_number B u"
    using Cons.prems(2) dict_lookup_value [OF u] by blast
  have B: "B < 2 ^ 1023" using Cons.prems(3) by simp
  from py_add_bounded [OF bu plain B] obtain t where
    t: "py_add u ?cost = Inr t" "bounded_number (B + 2 ^ 53) t"
    by blast
  let ?d1 = "dict_store d ?a t"
  have vals: "\<forall>v\<in>snd ` set ?d1. bounded_number (B + 2 ^ 53) v"
  proof
    fix v assume "v \<in> snd ` set ?d1"
    then have "v = t \<or> v \<in> snd ` set d"
      using dict_store_values [of d ?a t] by blast
    then show "bounded_number (B + 2 ^ 53) v"
      using Cons.prems(2) t(2) bounded_number_mono [of B v "B + 2 ^ 53"] by auto
  qed
  have keys: "\<forall>c\<in>set cs. dict_contains ?d1 (py_get c ''agent_assigned_id'' PNone)
                        \<and> plain_cost (py_get c ''estimate_cost'' (PInt 0))"
    using Cons.prems(1) by (simp add: dict_contains_store)
  have bound: "B + 2 ^ 53 + int (length cs) * 2 ^ 53 < 2 ^ 1023"
    using Cons.prems(3) by (simp add: algebra_simps)
  have step: "claim_cost_loop (c # cs) d = claim_cost_loop cs ?d1"
    using con nn by (simp add: Let_def u t(1))
  show ?case
    unfolding step by (rule Cons.IH [OF keys vals bound])
qed

lemma round_loop_returns:
  "\<forall>v\<in>snd ` set items. bounded_number B v \<Longrightarrow> \<exists>d'. round_loop items d = Inr d'"
proof (induction items arbitrary: d)
  case Nil
  then show ?case by simp
next
  case (Cons item items)
  have IH: "\<exists>d'. round_loop items e = Inr d'" for e
    using Cons by simp
  have "bounded_number B (snd item)" using Cons.prems by simp
  then obtain r where "py_round2 (snd item) = Inr r"
    by (cases "snd item") (simp_all add: bounded_number_def py_round2_def)
  then show ?case using IH by simp
qed

lemma known_agent_key:
  assumes "known_agent agents c"
  shows "py_key (py_get c ''agent_assigned_id'' PNone) \<in> agent_keys agents"
proof -
  from assms obtain a where a: "a \<in> set agents"
    "key_eq (py_get a ''id'' PNone) (py_get c ''agent_assigned_id'' PNone)"
    by (auto simp: known_agent_def list_ex_iff)
  have "py_key (py_get a ''id'' PNone) \<in> agent_keys agents"
    using a(1) by (simp add: agent_keys_def)
  then show ?thesis
    using a(2) by (simp add: key_eq_key)
qed

lemma agent_init_loop_zero:
  assumes "agent_init_loop agents d = Inr d'" and "\<forall>v\<in>snd ` set d. v = PInt 0"
  shows "\<forall>v\<in>snd ` set d'. v = PInt 0"
  using assms
proof (induction agents arbitrary: d)
  case Nil
  then show ?case by simp
next
  case (Cons a agents)
  from Cons.prems(1) obtain ob where ob: "py_getitem a ''id'' = Inr ob"
    by (cases "py_getitem a ''id''") simp_all
  let ?d1 = "dict_store d (obj_val ob) (PInt 0)"
  have rest: "agent_init_loop agents ?d1 = Inr d'"
    using Cons.prems(1) by (simp add: ob)
  have "\<forall>v\<in>snd ` set ?d1. v = PInt 0"
    using dict_store_values [of d "obj_val ob" "PInt 0"] Cons.prems(2) by auto
  then show ?case
    by (rule Cons.IH [OF rest])
qed

lemma agent_map_returns:
  assumes "\<forall>a\<in>set (agent_data self). has_key a ''id''"
      and "\<forall>c\<in>set (claim_data self). known_agent (agent_data self) c
             \<and> plain_cost (py_get c ''estimate_cost'' (PInt 0))"
      and "list_size_ok (claim_data self)"
  shows "\<exists>m. build_map_of_agents_to_total_claim_cost self = Inr m"
proof -
  obtain d0 where d0: "agent_init_loop (agent_data self) [] = Inr d0"
    using agent_init_loop_returns [OF assms(1)] by blast
  from agent_init_loop_map [OF d0] have
    m0: "\<And>k. map_of (norm_dict d0) k
            = (if k \<in> agent_keys (agent_data self) then Some (PInt 0) else None)"
    by (simp add: norm_dict_def)
  have "\<forall>v\<in>snd ` set d0. v = PInt 0"
    by (rule agent_init_loop_zero [OF d0]) simp
  then have vals0: "\<forall>v\<in>snd ` set d0. bounded_number 0 v"
    by (auto simp: bounded_number_def)
  have keys0: "\<forall>c\<in>set (claim_data self).
                 dict_contains d0 (py_get c ''agent_assigned_id'' PNone)
                 \<and> plain_cost (py_get c ''estimate_cost'' (PInt 0))"
  proof
    fix c assume c: "c \<in> set (claim_data self)"
    then have "py_key (py_get c ''agent_assigned_id'' PNone) \<in> agent_keys (agent_data self)"
      using assms(2) known_agent_key by blast
    then have "dict_contains d0 (py_get c ''agent_assigned_id'' PNone)"
      by (simp add: dict_contains_norm m0)
    then show "dict_contains d0 (py_get c ''agent_assigned_id'' PNone)
                 \<and> plain_cost (py_get c ''estimate_cost'' (PInt 0))"
      using assms(2) c by blast
  qed
  have "int (length (claim_data self)) * 2 ^ 53 < 2 ^ 63 * 2 ^ 53"
    using assms(3) by (simp add: list_size_ok_def)
  also have "\<dots> < (2 ^ 1023 :: int)" by simp
  finally have bound: "0 + int (length (claim_data self)) * 2 ^ 53 < 2 ^ 1023" by simp
  from claim_cost_loop_returns [OF keys0 vals0 bound] obtain d1 B' where
    d1: "claim_cost_loop (claim_data self) d0 = Inr d1" "\<forall>v\<in>snd ` set d1. bounded_number B' v"
    by blast
  from round_loop_returns [OF d1(2), of d1] obtain m where "round_loop d1 d1 = Inr m"
    by blast
  then show ?thesis
    by (simp add: build_map_of_agents_to_total_claim_cost_def d0 d1(1))
qed

text \<open>
  C3, amended. A query returns a value, and raises nothing, when the fields it reads are
  there with values it can use (\<open>requires\<close>): the keys it indexes are present; the
  costs it adds are floats, bools or ints below \<open>2 ^ 53\<close> in magnitude; the states it
  sorts and the dates it compares are strings; the severities it compares are numbers, as
  is the minimum severity; every claim of the agent map names an agent of the agent list;
  the state queries have a disaster to count; and the claim list has a length a Python
  list can have.
\<close>

theorem queries_return_when_their_fields_are_present:
  assumes "requires q self"
  shows "\<exists>r. answer q self = Inr r"
proof (cases q)
  case Get_num_closed_claims
  have "\<exists>n. closed_claims_loop (claim_data self) 0 = Inr n"
    by (rule closed_claims_loop_returns)
       (use assms in \<open>simp add: Get_num_closed_claims list_all_iff\<close>)
  then show ?thesis
    by (auto simp: Get_num_closed_claims get_num_closed_claims_def)
next
  case (Get_num_claims_for_claim_handler_id h)
  have "\<exists>n. handler_claims_loop (claim_data self) h 0 = Inr n"
    by (rule handler_claims_loop_returns)
       (use assms in \<open>simp add: Get_num_claims_for_claim_handler_id list_all_iff\<close>)
  then show ?thesis
    by (auto simp: Get_num_claims_for_claim_handler_id get_num_claims_for_claim_handler_id_def)
next
  case (Get_num_disasters_for_state st)
  have "\<exists>n. state_disasters_loop (disaster_data self) st 0 = Inr n"
    by (rule state_disasters_loop_returns)
       (use assms in \<open>simp add: Get_num_disasters_for_state list_all_iff\<close>)
  then show ?thesis
    by (auto simp: Get_num_disasters_for_state get_num_disasters_for_state_def)
next
  case (Get_total_claim_cost_for_disaster d)
  have "\<exists>r. get_total_claim_cost_for_disaster self d = Inr r"
    by (rule total_claim_cost_returns)
       (use assms in \<open>simp_all add: Get_total_claim_cost_for_disaster list_all_iff\<close>)
  then show ?thesis
    by (auto simp: Get_total_claim_cost_for_disaster)
next
  case (Get_average_claim_cost_for_claim_handler h)
  have "\<exists>r. get_average_claim_cost_for_claim_handler self h = Inr r"
    by (rule average_claim_cost_returns)
       (use assms in \<open>simp_all add: Get_average_claim_cost_for_claim_handler list_all_iff\<close>)
  then show ?thesis
    by (auto simp: Get_average_claim_cost_for_claim_handler)
next
  case Get_state_with_most_disasters
  have "disaster_data self \<noteq> []" "\<forall>r\<in>set (disaster_data self). str_field r ''state''"
    using assms by (simp_all add: Get_state_with_most_disasters list_all_iff)
  from state_queries_return [OF this] show ?thesis
    by (auto simp: Get_state_with_most_disasters)
next
  case Get_state_with_least_disasters
  have "disaster_data self \<noteq> []" "\<forall>r\<in>set (disaster_data self). str_field r ''state''"
    using assms by (simp_all add: Get_state_with_least_disasters list_all_iff)
  from state_queries_return [OF this] show ?thesis
    by (auto simp: Get_state_with_least_disasters)
next
  case (Get_most_spoken_agent_language_by_state st)
  have "\<exists>r. get_most_spoken_agent_language_by_state self st = Inr r"
    by (rule most_spoken_language_returns)
       (use assms in \<open>simp_all add: Get_most_spoken_agent_language_by_state list_all_iff\<close>)
  then show ?thesis
    by (auto simp: Get_most_spoken_agent_language_by_state)
next
  case (Get_num_of_open_claims_for_agent_and_severity a m)
  have "\<exists>r. get_num_of_open_claims_for_agent_and_severity self a m = Inr r"
    by (rule open_claims_returns)
       (use assms in \<open>simp_all add: Get_num_of_open_claims_for_agent_and_severity list_all_iff\<close>)
  then show ?thesis
    by (auto simp: Get_num_of_open_claims_for_agent_and_severity)
next
  case Get_num_disasters_declared_after_end_date
  have "\<exists>n. declared_after_loop (disaster_data self) 0 = Inr n"
    by (rule declared_after_loop_returns)
       (use assms in \<open>simp add: Get_num_disasters_declared_after_end_date list_all_iff\<close>)
  then show ?thesis
    by (auto simp: Get_num_disasters_declared_after_end_date
          get_num_disasters_declared_after_end_date_def)
next
  case Build_map_of_agents_to_total_claim_cost
  have "\<exists>m. build_map_of_agents_to_total_claim_cost self = Inr m"
    by (rule agent_map_returns)
       (use assms in \<open>simp_all add: Build_map_of_agents_to_total_claim_cost list_all_iff\<close>)
  then show ?thesis
    by (auto simp: Build_map_of_agents_to_total_claim_cost)
qed (simp_all add: calculate_disaster_claim_density_def
       get_top_three_months_with_highest_num_of_claims_desc_def)

theorem queries_return_when_their_fields_are_present_witness:
  "answer Get_state_with_most_disasters sample_tool = Inr (Val (PStr ''Ohio''))
   \<and> answer (Get_total_claim_cost_for_disaster (PInt 1)) sample_tool
       = Inr (Val (PFloat (json_float 1200.50)))
   \<and> answer (Get_average_claim_cost_for_claim_handler (PInt 10)) sample_tool
       = Inr (Val (PFloat (json_float 750.38)))
   \<and> answer Build_map_of_agents_to_total_claim_cost sample_tool
       = Inr (Dict [(PInt 1, PFloat (json_float 1500.75)), (PInt 2, PInt 0)])
   \<and> answer (Get_num_of_open_claims_for_agent_and_severity (Obj 99 (PInt 1)) (PInt 5)) sample_tool
       = Inr (Val (PInt 1))"
proof -
  have req: "requires Get_state_with_most_disasters sample_tool"
    by (simp add: sample_tool_def str_field_def)
  have a: "answer Get_state_with_most_disasters sample_tool = Inr (Val (PStr ''Ohio''))"
    by (simp add: sample_tool_def get_state_with_most_disasters_def py_getitem_def key_eq_def
          py_eq_def py_lt_def)
  have b: "answer (Get_total_claim_cost_for_disaster (PInt 1)) sample_tool
             = Inr (Val (PFloat (json_float 1200.50)))"
    unfolding sample_tool_def json_float_1200_5 json_float_300_25
    by (simp add: get_total_claim_cost_for_disaster_def py_getitem_def py_eq_def num_eq_def
          py_add_def py_float_def fadd_def round_double_at [where e = 10] pow2_def
          round_half_even_def Let_def)
  have c: "answer (Get_average_claim_cost_for_claim_handler (PInt 10)) sample_tool
             = Inr (Val (PFloat (json_float 750.38)))"
    unfolding sample_tool_def json_float_1200_5 json_float_300_25 json_float_750_38
    by (simp add: get_average_claim_cost_for_claim_handler_def
          get_num_claims_for_claim_handler_id_def py_getitem_def py_eq_def num_eq_def
          py_add_def py_float_def py_truediv_def float_of_int_def fadd_def fdiv_def
          py_round2_def fround2_def round_double_at [where e = 1] round_double_at [where e = 9]
          round_double_at [where e = 10] pow2_def round_half_even_def Let_def)
  have d: "answer Build_map_of_agents_to_total_claim_cost sample_tool
       = Inr (Dict [(PInt 1, PFloat (json_float 1500.75)), (PInt 2, PInt 0)])"
    unfolding sample_tool_def json_float_1200_5 json_float_300_25 json_float_1500_75
    by (simp add: build_map_of_agents_to_total_claim_cost_def py_getitem_def py_get_def
          key_eq_def py_eq_def num_eq_def py_add_def py_float_def float_of_int_def fadd_def
          py_round2_def fround2_def round_double_def [of _ 0] round_double_at [where e = 10]
          pow2_def round_half_even_def Let_def)
  have e: "answer (Get_num_of_open_claims_for_agent_and_severity (Obj 99 (PInt 1)) (PInt 5))
             sample_tool = Inr (Val (PInt 1))"
    by (simp add: sample_tool_def get_num_of_open_claims_for_agent_and_severity_def
          py_getitem_def py_eq_def num_eq_def py_is_def py_lt_def py_gt_def py_ge_def
          num_le_def)
  show ?thesis
    using queries_return_when_their_fields_are_present [OF req] a b c d e by (simp only: simp_thms)
qed

text \<open>
  C3 as stated does not hold: errors are not all turned into return values. On an empty
  disaster list the least-disasters query raises \<^verbatim>\<open>ValueError\<close>; a claim with a
  \<^verbatim>\<open>null\<close> cost makes the total-cost query raise \<^verbatim>\<open>TypeError\<close>; a claim without
  \<^verbatim>\<open>status\<close> makes the closed-claims count raise \<^verbatim>\<open>KeyError\<close>.
\<close>

theorem queries_raise:
  "get_state_with_least_disasters rounding_tool = Inl ValueError
   \<and> get_total_claim_cost_for_disaster null_then_cost_tool (PInt 1) = Inl TypeError
   \<and> get_num_closed_claims rounding_tool = Inl KeyError"
  by (simp add: get_state_with_least_disasters_def get_total_claim_cost_for_disaster_def
        get_num_closed_claims_def rounding_tool_def null_then_cost_tool_def py_getitem_def
        py_eq_def num_eq_def py_add_def)

end
